theory Spec2Isabelle
  imports
    Complex_Main
    "HOL-Library.Char_ord"
    "HOL-Library.List_Lexorder"
    "HOL-Library.AList"
    "HOL-Library.Multiset"
begin

section \<open>Strings\<close>

text \<open>
  The tracker works on JavaScript strings. They are modelled as \<^typ>\<open>string\<close>; the model is
  exact for strings of 7-bit ASCII characters, which is what the character tests of the source
  (\<^verbatim>\<open>\b\<close>, \<^verbatim>\<open>\s\<close>, \<^verbatim>\<open>ch >= 'A' && ch <= 'Z'\<close>, \<^verbatim>\<open>ch >= '0' && ch <= '9'\<close>) look at. A character
  outside ASCII is neither a letter, a digit nor white space here.
\<close>

definition code :: "char \<Rightarrow> nat" where
  "code c = of_char c"

definition is_upper :: "char \<Rightarrow> bool" where
  "is_upper c = (65 \<le> code c \<and> code c \<le> 90)"

definition is_lower :: "char \<Rightarrow> bool" where
  "is_lower c = (97 \<le> code c \<and> code c \<le> 122)"

definition is_letter :: "char \<Rightarrow> bool" where
  "is_letter c = (is_upper c \<or> is_lower c)"

definition is_digit :: "char \<Rightarrow> bool" where
  "is_digit c = (48 \<le> code c \<and> code c \<le> 57)"

text \<open>The ASCII part of JavaScript's white space and line terminators (\<^verbatim>\<open>\s\<close>, \<^verbatim>\<open>trim\<close>).\<close>

definition white_space :: "char list" where
  "white_space = [CHR 0x09, CHR 0x0A, CHR 0x0B, CHR 0x0C, CHR 0x0D, CHR 0x20]"

definition is_space :: "char \<Rightarrow> bool" where
  "is_space c = (c \<in> set white_space)"

text \<open>The class \<^verbatim>\<open>\w\<close> of a regular expression without flags: \<^verbatim>\<open>[A-Za-z0-9_]\<close>.\<close>

definition is_word :: "char \<Rightarrow> bool" where
  "is_word c = (is_letter c \<or> is_digit c \<or> c = CHR ''_'')"

definition to_lower :: "char \<Rightarrow> char" where
  "to_lower c = (if is_upper c then char_of (code c + 32) else c)"

definition to_upper :: "char \<Rightarrow> char" where
  "to_upper c = (if is_lower c then char_of (code c - 32) else c)"

definition toLowerCase :: "string \<Rightarrow> string" where
  "toLowerCase s = map to_lower s"

definition toUpperCase :: "string \<Rightarrow> string" where
  "toUpperCase s = map to_upper s"

definition trim :: "string \<Rightarrow> string" where
  "trim s = rev (dropWhile is_space (rev (dropWhile is_space s)))"

section \<open>Regular expressions\<close>

text \<open>
  The fragment of JavaScript's regular expressions that the channel classifier uses: literals,
  character classes, the word boundary \<^verbatim>\<open>\b\<close>, \<^verbatim>\<open>?\<close>, \<^verbatim>\<open>*\<close> on a character class,
  alternation and sequence. \<open>ends r s i\<close> lists the positions where a match of \<open>r\<close> that starts
  at position \<open>i\<close> of \<open>s\<close> can end; \<^verbatim>\<open>RegExp.prototype.test\<close> asks whether some start position
  has a match.
\<close>

datatype rx =
    Lit string
  | Cls "char list"
  | WB
  | Opt rx
  | StarCls "char list"
  | Alt rx rx
  | Seq rx rx

definition at_boundary :: "string \<Rightarrow> nat \<Rightarrow> bool" where
  "at_boundary s i =
     ((0 < i \<and> is_word (s ! (i - 1))) \<noteq> (i < length s \<and> is_word (s ! i)))"

fun ends :: "rx \<Rightarrow> string \<Rightarrow> nat \<Rightarrow> nat list" where
  "ends (Lit w) s i = (if take (length w) (drop i s) = w then [i + length w] else [])"
| "ends (Cls cs) s i = (if i < length s \<and> s ! i \<in> set cs then [Suc i] else [])"
| "ends WB s i = (if at_boundary s i then [i] else [])"
| "ends (Opt r) s i = ends r s i @ [i]"
| "ends (StarCls cs) s i =
     rev (map (\<lambda>k. i + k) [0..<Suc (length (takeWhile (\<lambda>c. c \<in> set cs) (drop i s)))])"
| "ends (Alt a b) s i = ends a s i @ ends b s i"
| "ends (Seq a b) s i = concat (map (ends b s) (ends a s i))"

definition rx_test :: "rx \<Rightarrow> string \<Rightarrow> bool" where
  "rx_test r s = list_ex (\<lambda>i. ends r s i \<noteq> []) [0..<Suc (length s)]"

text \<open>\<^verbatim>\<open>/\b(...)\b/\<close>\<close>

definition token :: "rx \<Rightarrow> rx" where
  "token r = Seq WB (Seq r WB)"

section \<open>Channel classifier\<close>

text \<open>The patterns of the \<^verbatim>\<open>data\<close> memo, in the order of the source.\<close>

definition rx_no :: rx where
  "rx_no = Seq (Lit ''no'') (Opt (Cls (CHR ''-'' # white_space)))"

definition rx_vm :: rx where
  "rx_vm = Alt (Lit ''voicemail'')
            (Alt (Seq (Lit ''voice'') (Seq (StarCls white_space) (Lit ''mail'')))
            (Alt (Lit ''vm'') (Lit ''vmail'')))"

definition rx_text :: rx where
  "rx_text = Alt (Lit ''text'') (Lit ''sms'')"

definition hasNoMailTag :: "string \<Rightarrow> bool" where
  "hasNoMailTag src = rx_test (Seq WB (Seq rx_no (Seq (Lit ''mail'') WB))) src"

definition hasMailToken :: "string \<Rightarrow> bool" where
  "hasMailToken src = rx_test (token (Lit ''mail'')) src"

definition hasTextToken :: "string \<Rightarrow> bool" where
  "hasTextToken src = rx_test (token rx_text) src"

definition hasVmToken :: "string \<Rightarrow> bool" where
  "hasVmToken src = rx_test (token rx_vm) src"

definition anyToken :: "string \<Rightarrow> bool" where
  "anyToken src =
     rx_test (token (Alt (Lit ''mail'') (Alt (Lit ''text'') (Alt (Lit ''sms'')
       (Alt (Lit ''voicemail'')
       (Alt (Seq (Lit ''voice'') (Seq (StarCls white_space) (Lit ''mail'')))
       (Alt (Lit ''vm'') (Lit ''vmail'')))))))) src"

definition noText :: "string \<Rightarrow> bool" where
  "noText src = rx_test (Seq WB (Seq rx_no (Seq rx_text WB))) src"

definition noVM :: "string \<Rightarrow> bool" where
  "noVM src = rx_test (Seq WB (Seq rx_no (Seq rx_vm WB))) src"

record flags =
  hasMail :: bool
  hasText :: bool
  hasVM :: bool

text \<open>
  The search string and the assignments of the source, one \<open>let\<close> for each statement:
  \<^verbatim>\<open>let hasMail = hasMailToken && !hasNoMailTag; let hasText = hasTextToken; let hasVM = hasVmToken;\<close>
  \<^verbatim>\<open>if (!anyToken) { hasMail = !hasNoMailTag; hasText = true; hasVM = true; }\<close>
  \<^verbatim>\<open>if (hasMail && !noText) hasText = true;  if (hasMail && !noVM) hasVM = true;\<close>
  \<^verbatim>\<open>if (noText) hasText = false;  if (noVM) hasVM = false;\<close>
\<close>

definition searchString :: "string \<Rightarrow> string \<Rightarrow> string" where
  "searchString tags channels = toLowerCase tags @ '' '' @ toLowerCase channels"

definition classify :: "string \<Rightarrow> flags" where
  "classify src =
    (let f = \<lparr>hasMail = hasMailToken src \<and> \<not> hasNoMailTag src,
              hasText = hasTextToken src,
              hasVM = hasVmToken src\<rparr>;
         f = (if \<not> anyToken src
              then f\<lparr>hasMail := \<not> hasNoMailTag src, hasText := True, hasVM := True\<rparr> else f);
         f = (if hasMail f \<and> \<not> noText src then f\<lparr>hasText := True\<rparr> else f);
         f = (if hasMail f \<and> \<not> noVM src then f\<lparr>hasVM := True\<rparr> else f);
         f = (if noText src then f\<lparr>hasText := False\<rparr> else f);
         f = (if noVM src then f\<lparr>hasVM := False\<rparr> else f)
     in f)"

text \<open>
  The derivation as the specification words it, one function for each of its five rules. Its
  \<open>anyToken\<close> is true if any of the four token classes matched, the no-mail tag among them.
\<close>

definition spec_anyToken :: "string \<Rightarrow> bool" where
  "spec_anyToken src =
     (hasNoMailTag src \<or> hasMailToken src \<or> hasTextToken src \<or> hasVmToken src)"

definition spec_rule1 :: "string \<Rightarrow> flags" where
  "spec_rule1 src =
     \<lparr>hasMail = hasMailToken src \<and> \<not> hasNoMailTag src,
      hasText = hasTextToken src,
      hasVM = hasVmToken src\<rparr>"

definition spec_rule2 :: "string \<Rightarrow> flags \<Rightarrow> flags" where
  "spec_rule2 src f =
     (if spec_anyToken src then f
      else \<lparr>hasMail = \<not> hasNoMailTag src, hasText = True, hasVM = True\<rparr>)"

definition spec_rule3 :: "string \<Rightarrow> flags \<Rightarrow> flags" where
  "spec_rule3 src f = f\<lparr>hasText := hasText f \<or> (hasMail f \<and> \<not> noText src)\<rparr>"

definition spec_rule4 :: "string \<Rightarrow> flags \<Rightarrow> flags" where
  "spec_rule4 src f = f\<lparr>hasVM := hasVM f \<or> (hasMail f \<and> \<not> noVM src)\<rparr>"

definition spec_rule5 :: "string \<Rightarrow> flags \<Rightarrow> flags" where
  "spec_rule5 src f = f\<lparr>hasText := hasText f \<and> \<not> noText src, hasVM := hasVM f \<and> \<not> noVM src\<rparr>"

definition spec_flags :: "string \<Rightarrow> flags" where
  "spec_flags src =
     spec_rule5 src (spec_rule4 src (spec_rule3 src (spec_rule2 src (spec_rule1 src))))"

text \<open>
  The same five rules with rule 2 guarded by the three channel token classes only: it applies
  when none of the mail, text and voicemail tokens matched, whether or not a no-mail tag did.
\<close>

definition channelToken :: "string \<Rightarrow> bool" where
  "channelToken src = (hasMailToken src \<or> hasTextToken src \<or> hasVmToken src)"

definition amended_rule2 :: "string \<Rightarrow> flags \<Rightarrow> flags" where
  "amended_rule2 src f =
     (if channelToken src then f
      else \<lparr>hasMail = \<not> hasNoMailTag src, hasText = True, hasVM = True\<rparr>)"

definition amended_flags :: "string \<Rightarrow> flags" where
  "amended_flags src =
     spec_rule5 src (spec_rule4 src (spec_rule3 src (amended_rule2 src (spec_rule1 src))))"

section \<open>Numbers\<close>

text \<open>
  A JavaScript number is \<open>NaN\<close>, an infinity or a finite value. Finite values are kept exact
  (a rational), so the model agrees with the program wherever binary64 arithmetic is exact, in
  particular on integers of magnitude up to \<open>2 ^ 53\<close>; rounding and overflow are not modelled.
\<close>

datatype jsnum = NaN | PosInf | NegInf | Fin rat

fun js_neg :: "jsnum \<Rightarrow> jsnum" where
  "js_neg NaN = NaN"
| "js_neg PosInf = NegInf"
| "js_neg NegInf = PosInf"
| "js_neg (Fin q) = Fin (- q)"

fun js_add :: "jsnum \<Rightarrow> jsnum \<Rightarrow> jsnum" where
  "js_add (Fin a) (Fin b) = Fin (a + b)"
| "js_add NaN _ = NaN"
| "js_add _ NaN = NaN"
| "js_add PosInf NegInf = NaN"
| "js_add NegInf PosInf = NaN"
| "js_add PosInf _ = PosInf"
| "js_add _ PosInf = PosInf"
| "js_add NegInf _ = NegInf"
| "js_add _ NegInf = NegInf"

text \<open>\<^verbatim>\<open>x || 0\<close> on a number: \<open>NaN\<close> and zero are falsy.\<close>

definition or0 :: "jsnum \<Rightarrow> jsnum" where
  "or0 x = (if x = NaN \<or> x = Fin 0 then Fin 0 else x)"

text \<open>
  \<^verbatim>\<open>Number(string)\<close>: the \<^verbatim>\<open>StringNumericLiteral\<close> grammar of ECMAScript. White space around
  the literal is dropped; the empty string is 0; \<^verbatim>\<open>0x\<close>, \<^verbatim>\<open>0o\<close> and \<^verbatim>\<open>0b\<close> literals take no
  sign; a decimal literal is an optional sign, then \<^verbatim>\<open>Infinity\<close> or digits with an optional
  fraction and exponent. Anything else is \<open>NaN\<close>.
\<close>

definition digit_in :: "nat \<Rightarrow> char \<Rightarrow> nat option" where
  "digit_in b c =
     (let v = (if is_digit c then Some (code c - 48)
               else if 97 \<le> code c \<and> code c \<le> 102 then Some (code c - 87)
               else if 65 \<le> code c \<and> code c \<le> 70 then Some (code c - 55)
               else None)
      in case v of None \<Rightarrow> None | Some d \<Rightarrow> if d < b then Some d else None)"

fun digits_in :: "nat \<Rightarrow> nat \<Rightarrow> string \<Rightarrow> nat option" where
  "digits_in b acc [] = Some acc"
| "digits_in b acc (c # cs) =
     (case digit_in b c of None \<Rightarrow> None | Some d \<Rightarrow> digits_in b (b * acc + d) cs)"

definition radix_literal :: "nat \<Rightarrow> string \<Rightarrow> nat option" where
  "radix_literal b ds = (if ds = [] then None else digits_in b 0 ds)"

definition exponent_part :: "string \<Rightarrow> int option" where
  "exponent_part r =
     (if r = [] then Some 0
      else if hd r = CHR ''e'' \<or> hd r = CHR ''E'' then
        (let r' = tl r;
             neg = (r' \<noteq> [] \<and> hd r' = CHR ''-'');
             ds = (if r' \<noteq> [] \<and> (hd r' = CHR ''-'' \<or> hd r' = CHR ''+'') then tl r' else r')
         in case radix_literal 10 ds of
              None \<Rightarrow> None
            | Some n \<Rightarrow> Some (if neg then - int n else int n))
      else None)"

definition pow10 :: "int \<Rightarrow> rat" where
  "pow10 e = (if 0 \<le> e then 10 ^ nat e else 1 / 10 ^ nat (- e))"

definition unsigned_decimal :: "string \<Rightarrow> jsnum" where
  "unsigned_decimal u =
     (if u = ''Infinity'' then PosInf
      else
        (let ip = takeWhile is_digit u;
             r1 = dropWhile is_digit u;
             dot = (r1 \<noteq> [] \<and> hd r1 = CHR ''.'');
             fp = (if dot then takeWhile is_digit (tl r1) else []);
             r2 = (if dot then dropWhile is_digit (tl r1) else r1)
         in if ip = [] \<and> fp = [] then NaN
            else (case (radix_literal 10 (ip @ fp), exponent_part r2) of
                    (Some n, Some e) \<Rightarrow> Fin (of_nat n * pow10 (e - int (length fp)))
                  | _ \<Rightarrow> NaN)))"

definition js_Number :: "string \<Rightarrow> jsnum" where
  "js_Number s =
     (let t = trim s in
      if t = [] then Fin 0
      else if 2 \<le> length t \<and> hd t = CHR ''0'' \<and> t ! 1 \<in> set ''xX'' then
        (case radix_literal 16 (drop 2 t) of None \<Rightarrow> NaN | Some n \<Rightarrow> Fin (of_nat n))
      else if 2 \<le> length t \<and> hd t = CHR ''0'' \<and> t ! 1 \<in> set ''oO'' then
        (case radix_literal 8 (drop 2 t) of None \<Rightarrow> NaN | Some n \<Rightarrow> Fin (of_nat n))
      else if 2 \<le> length t \<and> hd t = CHR ''0'' \<and> t ! 1 \<in> set ''bB'' then
        (case radix_literal 2 (drop 2 t) of None \<Rightarrow> NaN | Some n \<Rightarrow> Fin (of_nat n))
      else if hd t = CHR ''-'' then js_neg (unsigned_decimal (tl t))
      else if hd t = CHR ''+'' then unsigned_decimal (tl t)
      else unsigned_decimal t)"

text \<open>\<^verbatim>\<open>Number(r.Count) || 0\<close> on a cell that may be absent (\<^verbatim>\<open>Number(undefined)\<close> is \<open>NaN\<close>).\<close>

definition numberOr0 :: "string option \<Rightarrow> jsnum" where
  "numberOr0 cell = or0 (case cell of None \<Rightarrow> NaN | Some s \<Rightarrow> js_Number s)"

text \<open>Decimal rendering of integers, as template strings and \<^verbatim>\<open>String\<close> produce it.\<close>

fun show_nat :: "nat \<Rightarrow> string" where
  "show_nat n =
     (if n < 10 then [char_of (48 + n)] else show_nat (n div 10) @ [char_of (48 + n mod 10)])"

declare show_nat.simps [simp del]

definition show_int :: "int \<Rightarrow> string" where
  "show_int i = (if i < 0 then ''-'' @ show_nat (nat (- i)) else show_nat (nat i))"

definition padStart :: "nat \<Rightarrow> char \<Rightarrow> string \<Rightarrow> string" where
  "padStart len c s = replicate (len - length s) c @ s"

section \<open>Dates\<close>

text \<open>
  A valid \<^verbatim>\<open>Date\<close> is a time stamp. The tracker reads it in local time only, so the model
  counts milliseconds of local civil time (no zone offset, no daylight saving), from
  1970-01-01T00:00. The calendar is the proleptic Gregorian one of \<^verbatim>\<open>Date\<close>; the bound of
  a \<^verbatim>\<open>Date\<close> (100 million days around 1970) is not modelled.
\<close>

datatype date = LocalMs (ms: int)

definition msPerDay :: int where
  "msPerDay = 86400000"

definition dayNumber :: "date \<Rightarrow> int" where
  "dayNumber d = ms d div msPerDay"

definition days_from_civil :: "int \<Rightarrow> int \<Rightarrow> int \<Rightarrow> int" where
  "days_from_civil y m d =
     (let y' = (if m \<le> 2 then y - 1 else y);
          era = y' div 400;
          yoe = y' - era * 400;
          doy = (153 * (if 2 < m then m - 3 else m + 9) + 2) div 5 + d - 1;
          doe = yoe * 365 + yoe div 4 - yoe div 100 + doy
      in era * 146097 + doe - 719468)"

definition civil_from_days :: "int \<Rightarrow> int \<times> int \<times> int" where
  "civil_from_days z0 =
     (let z = z0 + 719468;
          era = z div 146097;
          doe = z - era * 146097;
          yoe = (doe - doe div 1460 + doe div 36524 - doe div 146096) div 365;
          doy = doe - (365 * yoe + yoe div 4 - yoe div 100);
          mp = (5 * doy + 2) div 153;
          d = doy - (153 * mp + 2) div 5 + 1;
          m = (if mp < 10 then mp + 3 else mp - 9);
          y = yoe + era * 400
      in (if m \<le> 2 then y + 1 else y, m, d))"

definition getFullYear :: "date \<Rightarrow> int" where
  "getFullYear d = fst (civil_from_days (dayNumber d))"

text \<open>\<^verbatim>\<open>getMonth\<close> counts from 0.\<close>

definition getMonth :: "date \<Rightarrow> int" where
  "getMonth d = fst (snd (civil_from_days (dayNumber d))) - 1"

definition getDate :: "date \<Rightarrow> int" where
  "getDate d = snd (snd (civil_from_days (dayNumber d)))"

text \<open>date-fns \<^verbatim>\<open>addDays\<close>: the same local time of day, so many calendar days later.\<close>

definition addDays :: "date \<Rightarrow> int \<Rightarrow> date" where
  "addDays d n = LocalMs (ms d + n * msPerDay)"

text \<open>
  date-fns \<^verbatim>\<open>format(date, 'yyyy-MM-dd')\<close>: the year of the era, the month and the day of the
  month, each through \<^verbatim>\<open>addLeadingZeros\<close>.
\<close>

definition addLeadingZeros :: "int \<Rightarrow> nat \<Rightarrow> string" where
  "addLeadingZeros n len =
     (if n < 0 then ''-'' else []) @ padStart len CHR ''0'' (show_nat (nat \<bar>n\<bar>))"

definition format_ymd :: "date \<Rightarrow> string" where
  "format_ymd d =
     (let signedYear = getFullYear d;
          year = (if 0 < signedYear then signedYear else 1 - signedYear)
      in addLeadingZeros year 4 @ ''-'' @ addLeadingZeros (getMonth d + 1) 2
         @ ''-'' @ addLeadingZeros (getDate d) 2)"

text \<open>
  The parsers behind \<^verbatim>\<open>tryParseDate\<close> belong to date-fns and to the JavaScript runtime, so
  they are parameters: \<open>parse\<close> is \<^verbatim>\<open>parse(str, format, reference)\<close>, \<open>parseISO\<close> is
  \<^verbatim>\<open>parseISO(str)\<close> and \<open>newDate\<close> is \<^verbatim>\<open>new Date(str)\<close>; each gives \<open>None\<close> for an invalid
  date (and \<open>parse\<close> also where it throws, which the source catches).
\<close>

record datelib =
  parse :: "string \<Rightarrow> string \<Rightarrow> date \<Rightarrow> date option"
  parseISO :: "string \<Rightarrow> date option"
  newDate :: "string \<Rightarrow> date option"

definition tryFormats :: "string list" where
  "tryFormats =
     [''yyyy-MM-dd'', ''MMM d, yyyy'', ''MMMM d, yyyy'', ''M/d/yyyy'', ''MM/dd/yyyy'',
      ''M/d/yy'', ''MM/dd/yy'']"

fun firstFormat :: "datelib \<Rightarrow> date \<Rightarrow> string \<Rightarrow> string list \<Rightarrow> date option" where
  "firstFormat lib now asStr [] = None"
| "firstFormat lib now asStr (f # fs) =
     (case parse lib asStr f now of Some d \<Rightarrow> Some d | None \<Rightarrow> firstFormat lib now asStr fs)"

text \<open>
  \<open>tryParseDate\<close> on a cell: an absent cell and the empty string are falsy. (A cell is never
  a \<^verbatim>\<open>Date\<close> object, see \<open>rawrow\<close> below, so the \<^verbatim>\<open>instanceof Date\<close> branch is not taken.)
  \<open>now\<close> is the \<^verbatim>\<open>new Date()\<close> handed to \<^verbatim>\<open>parse\<close> as its reference date.
\<close>

definition tryParseDate :: "datelib \<Rightarrow> date \<Rightarrow> string option \<Rightarrow> date option" where
  "tryParseDate lib now v =
     (case v of
        None \<Rightarrow> None
      | Some s \<Rightarrow>
          if s = [] then None
          else
            (let asStr = trim s in
             case firstFormat lib now asStr tryFormats of
               Some d \<Rightarrow> Some d
             | None \<Rightarrow>
                 (case parseISO lib asStr of
                    Some d \<Rightarrow> Some d
                  | None \<Rightarrow> newDate lib asStr)))"

section \<open>Cadence labels\<close>

text \<open>
  \<^verbatim>\<open>parseInt(digits, 10)\<close> on a string of decimal digits gives the binary64 number nearest to
  the integer they denote (ties to even): the integer itself up to 53 bits, \<^verbatim>\<open>Infinity\<close> from
  \<open>2 ^ 1024 - 2 ^ 970\<close> on. \<open>toDouble\<close> is \<open>None\<close> for \<^verbatim>\<open>Infinity\<close>. (All digits are taken as
  they are; the standard lets an implementation read the digits after the 20th as zeros.)
\<close>

fun bitLength :: "nat \<Rightarrow> nat" where
  "bitLength n = (if n = 0 then 0 else Suc (bitLength (n div 2)))"

declare bitLength.simps [simp del]

definition toDouble :: "nat \<Rightarrow> nat option" where
  "toDouble n =
     (if n < 2 ^ 53 then Some n
      else
        (let e = bitLength n - 53;
             q = n div 2 ^ e;
             r = n mod 2 ^ e;
             h = 2 ^ (e - 1);
             q' = (if h < r \<or> (r = h \<and> odd q) then q + 1 else q);
             v = q' * 2 ^ e
         in if 2 ^ 1024 \<le> v then None else Some v))"

text \<open>
  \<open>inferBatchNum\<close> keeps the digits of \<^verbatim>\<open>part + " " + batch\<close> and reads them with
  \<^verbatim>\<open>parseInt(digits, 10)\<close>; the result is \<^verbatim>\<open>null\<close> unless \<^verbatim>\<open>Number.isFinite\<close>, that is without
  any digit (\<open>NaN\<close>) and past the range of a number (\<^verbatim>\<open>Infinity\<close>).
\<close>

definition inferBatchNum :: "string \<Rightarrow> string \<Rightarrow> nat option" where
  "inferBatchNum part batch =
     (case radix_literal 10 (filter is_digit (part @ '' '' @ batch)) of
        None \<Rightarrow> None
      | Some n \<Rightarrow> toDouble n)"

text \<open>JavaScript's \<^verbatim>\<open>%\<close> truncates towards zero; an array read out of range is \<^verbatim>\<open>undefined\<close>.\<close>

definition js_rem :: "int \<Rightarrow> int \<Rightarrow> int" where
  "js_rem a b = (if a < 0 then - ((- a) mod b) else a mod b)"

definition at_index :: "'a list \<Rightarrow> int \<Rightarrow> 'a option" where
  "at_index xs k = (if 0 \<le> k \<and> k < int (length xs) then Some (xs ! nat k) else None)"

definition ordinal :: "nat \<Rightarrow> string" where
  "ordinal n =
     (let s = [''th'', ''st'', ''nd'', ''rd''];
          v = int (n mod 100)
      in show_nat n @
         (case at_index s (js_rem (v - 20) 10) of
            Some x \<Rightarrow> x
          | None \<Rightarrow> (case at_index s v of Some x \<Rightarrow> x | None \<Rightarrow> s ! 0)))"

definition stageForBatch :: "nat option \<Rightarrow> string" where
  "stageForBatch n =
     (case n of
        None \<Rightarrow> ''Initial''
      | Some k \<Rightarrow>
          if k \<le> 1 then ''Initial''
          else if 5 \<le> k then ''Final''
          else ordinal k @ '' Follow-up'')"

text \<open>
  The campaign group identity: the function \<^verbatim>\<open>build\<close> of the runtime checks, whose statements
  the cadence matrix repeats on \<^verbatim>\<open>r.campaign\<close> and \<^verbatim>\<open>r.part\<close>. Strings compare as JavaScript
  compares them, by code unit.
\<close>

definition lastIndexOf :: "string \<Rightarrow> string \<Rightarrow> nat option" where
  "lastIndexOf s w =
     (case filter (\<lambda>i. take (length w) (drop i s) = w) (rev [0..<Suc (length s - length w)]) of
        [] \<Rightarrow> None
      | i # _ \<Rightarrow> Some i)"

definition campaignBase :: "string \<Rightarrow> string" where
  "campaignBase campaign =
     (let base = trim campaign in
      case lastIndexOf base '' - '' of
        None \<Rightarrow> base
      | Some idx \<Rightarrow>
          if idx + 3 \<le> length base then
            (let suf = trim (drop (idx + 3) base);
                 C = toUpperCase suf
             in if length suf = 1 \<and> ''A'' \<le> C \<and> C \<le> ''Z'' then take idx base else base)
          else base)"

definition partLetter :: "string \<Rightarrow> string" where
  "partLetter p =
     (case filter (\<lambda>ch. ''A'' \<le> [ch] \<and> [ch] \<le> ''Z'') (map to_upper p) of
        [] \<Rightarrow> []
      | ch # _ \<Rightarrow> [ch])"

definition build :: "string \<Rightarrow> string \<Rightarrow> string" where
  "build campaign part =
     (let base = campaignBase campaign;
          letter = partLetter part
      in if letter \<noteq> [] then base @ '' - '' @ letter else base)"

section \<open>Row normalizer\<close>

text \<open>
  A raw row is what the CSV loader hands over (\<^verbatim>\<open>Papa.parse\<close> with \<^verbatim>\<open>header: true\<close>): an object
  whose keys are the header cells, as written in the sheet, and whose values are strings. It is
  an association list; \<open>cell r k\<close> is the property read \<^verbatim>\<open>r[k]\<close>, \<open>None\<close> for \<^verbatim>\<open>undefined\<close>.
\<close>

type_synonym rawrow = "(string \<times> string) list"

definition cell :: "rawrow \<Rightarrow> string \<Rightarrow> string option" where
  "cell r k = map_of r k"

text \<open>\<^verbatim>\<open>a || b\<close> on cells, and \<^verbatim>\<open>a || "default"\<close>: \<^verbatim>\<open>undefined\<close> and the empty string are falsy.\<close>

definition truthy :: "string option \<Rightarrow> bool" where
  "truthy v = (v \<noteq> None \<and> v \<noteq> Some [])"

definition orCell :: "string option \<Rightarrow> string option \<Rightarrow> string option" where
  "orCell a b = (if truthy a then a else b)"

definition orElse :: "string option \<Rightarrow> string \<Rightarrow> string" where
  "orElse v d = (if truthy v then the v else d)"

text \<open>
  The record built by the \<^verbatim>\<open>map\<close> of the \<^verbatim>\<open>data\<close> memo. \<open>mailDate\<close> is a \<^typ>\<open>date option\<close> before
  the \<^verbatim>\<open>filter\<close> and a \<^typ>\<open>date\<close> after it.
\<close>

record 'd event = flags +
  id :: nat
  raw :: rawrow
  mailDate :: 'd
  count :: jsnum
  campaign :: string
  category :: string
  part :: string
  batch :: string
  batchNum :: "nat option"
  cost :: jsnum

text \<open>\<^verbatim>\<open>tryParseDate(r["Red - Adjusted Dates"] || r.Date)\<close>\<close>

definition rowDate :: "datelib \<Rightarrow> date \<Rightarrow> rawrow \<Rightarrow> date option" where
  "rowDate lib now r =
     tryParseDate lib now (orCell (cell r ''Red - Adjusted Dates'') (cell r ''Date''))"

definition normalizeRow :: "datelib \<Rightarrow> date \<Rightarrow> nat \<Rightarrow> rawrow \<Rightarrow> date option event" where
  "normalizeRow lib now i r =
     (let f = classify (searchString (orElse (cell r ''Tags'') []) (orElse (cell r ''Channels'') []));
          part = orElse (cell r ''Part'') [];
          batch = orElse (cell r ''Batch'') []
      in \<lparr>hasMail = hasMail f, hasText = hasText f, hasVM = hasVM f,
          id = i, raw = r, mailDate = rowDate lib now r,
          count = numberOr0 (cell r ''Count''),
          campaign = orElse (cell r ''Campaign'') ''(Unnamed)'',
          category = orElse (cell r ''Category'') [],
          part = part, batch = batch,
          batchNum = inferBatchNum part batch,
          cost = numberOr0 (cell r ''Cost'')\<rparr>)"

text \<open>
  \<^verbatim>\<open>.filter((r) => r.mailDate)\<close> on one record: a record without a date goes, a record with
  one stays as it is (every \<^verbatim>\<open>Date\<close> object is truthy).
\<close>

definition keepDated :: "date option event \<Rightarrow> date event list" where
  "keepDated e =
     (case mailDate e of
        None \<Rightarrow> []
      | Some d \<Rightarrow>
          [\<lparr>hasMail = hasMail e, hasText = hasText e, hasVM = hasVM e,
            id = id e, raw = raw e, mailDate = d, count = event.count e,
            campaign = campaign e, category = category e, part = part e, batch = batch e,
            batchNum = batchNum e, cost = cost e\<rparr>])"

definition data :: "datelib \<Rightarrow> date \<Rightarrow> rawrow list \<Rightarrow> date event list" where
  "data lib now rows =
     concat (map keepDated (map (\<lambda>(i, r). normalizeRow lib now i r) (enumerate 0 rows)))"

text \<open>The same on the rows of a sheet from row \<open>n\<close> on, for inductions over the rows.\<close>

definition dataFrom :: "datelib \<Rightarrow> date \<Rightarrow> nat \<Rightarrow> rawrow list \<Rightarrow> date event list" where
  "dataFrom lib now n rows =
     concat (map keepDated (map (\<lambda>(i, r). normalizeRow lib now i r) (enumerate n rows)))"

section \<open>Task deriver\<close>

text \<open>
  A task as the \<^verbatim>\<open>tasks\<close> memo pushes it. \<open>stage\<close> is absent on a mail task. The \<^verbatim>\<open>label\<close> of
  the source, a display text, is left out.
\<close>

record task =
  count :: jsnum
  ref :: "date event"
  type :: string
  date :: date
  idKey :: string
  stage :: "string option"

definition idKeyOf :: "string \<Rightarrow> date \<Rightarrow> date event \<Rightarrow> string" where
  "idKeyOf ty d r =
     ty @ ''|'' @ format_ymd d @ ''|'' @ campaign r @ ''|'' @ part r @ ''|'' @ batch r"

text \<open>The body of the loop: the tasks pushed for one event, in the order of the pushes.\<close>

definition tasksFor :: "date event \<Rightarrow> task list" where
  "tasksFor r =
     (let t0 = mailDate r;
          follow = (if hasMail r then addDays t0 13 else t0)
      in (if hasMail r
          then [\<lparr>count = event.count r, ref = r, type = ''mail'', date = t0,
                 idKey = idKeyOf ''mail'' t0 r, stage = None\<rparr>]
          else [])
         @ (if hasText r
            then [\<lparr>count = event.count r, ref = r, type = ''text'', date = follow,
                   idKey = idKeyOf ''text'' follow r, stage = Some (stageForBatch (batchNum r))\<rparr>]
            else [])
         @ (if hasVM r
            then [\<lparr>count = event.count r, ref = r, type = ''vm'', date = follow,
                   idKey = idKeyOf ''vm'' follow r, stage = Some (stageForBatch (batchNum r))\<rparr>]
            else []))"

text \<open>\<^verbatim>\<open>items.sort((a, b) => a.date - b.date)\<close>: a stable sort on the time stamp.\<close>

definition tasks :: "date event list \<Rightarrow> task list" where
  "tasks evs = sort_key (\<lambda>t. ms (date t)) (fold (\<lambda>r items. items @ tasksFor r) evs [])"

section \<open>Monthly mail aggregate\<close>

text \<open>
  The \<^verbatim>\<open>Map\<close> of the \<^verbatim>\<open>monthAgg\<close> memo is an association list in insertion order:
  \<^verbatim>\<open>map.set\<close> replaces the value of a key that is there and appends a new key.
  \<^verbatim>\<open>localeCompare\<close> orders the keys, which consist of digits and hyphens, by code unit.
\<close>

definition getYear :: "date \<Rightarrow> int" where
  "getYear d = getFullYear d"

definition monthKey :: "date \<Rightarrow> string" where
  "monthKey d = show_int (getYear d) @ ''-'' @ padStart 2 CHR ''0'' (show_int (getMonth d + 1))"

definition getOr0 :: "(string \<times> jsnum) list \<Rightarrow> string \<Rightarrow> jsnum" where
  "getOr0 m key = (case map_of m key of None \<Rightarrow> Fin 0 | Some x \<Rightarrow> or0 x)"

definition monthStep :: "date event \<Rightarrow> (string \<times> jsnum) list \<Rightarrow> (string \<times> jsnum) list" where
  "monthStep r m =
     (if \<not> hasMail r then m
      else (let key = monthKey (mailDate r)
            in AList.update key (js_add (getOr0 m key) (event.count r)) m))"

definition monthAgg :: "date event list \<Rightarrow> (string \<times> jsnum) list" where
  "monthAgg evs = sort_key fst (fold monthStep evs [])"

section \<open>A small date library\<close>

text \<open>
  An instance of the parsers to run the pipeline on concrete rows. It knows one pattern only,
  \<^verbatim>\<open>yyyy-MM-dd\<close> with four, two and two digits and a day that exists, which both \<^verbatim>\<open>parse\<close>
  (under the format \<^verbatim>\<open>yyyy-MM-dd\<close>) and \<^verbatim>\<open>parseISO\<close> read as local midnight of that day; every
  other input is an invalid date in this instance.
\<close>

definition isLeap :: "int \<Rightarrow> bool" where
  "isLeap y = (y mod 4 = 0 \<and> (y mod 100 \<noteq> 0 \<or> y mod 400 = 0))"

definition daysInMonth :: "int \<Rightarrow> int \<Rightarrow> int" where
  "daysInMonth y m =
     (if m = 2 then (if isLeap y then 29 else 28)
      else if m \<in> {4, 6, 9, 11} then 30 else 31)"

definition parse_ymd :: "string \<Rightarrow> date option" where
  "parse_ymd s =
     (if length s = 10 \<and> s ! 4 = CHR ''-'' \<and> s ! 7 = CHR ''-'' then
        (case (radix_literal 10 (take 4 s), radix_literal 10 (take 2 (drop 5 s)),
               radix_literal 10 (drop 8 s)) of
           (Some y, Some m, Some d) \<Rightarrow>
             if 1 \<le> y \<and> 1 \<le> m \<and> m \<le> 12 \<and> 1 \<le> d \<and> int d \<le> daysInMonth (int y) (int m)
             then Some (LocalMs (days_from_civil (int y) (int m) (int d) * msPerDay))
             else None
         | _ \<Rightarrow> None)
      else None)"

definition sampleLib :: datelib where
  "sampleLib =
     \<lparr>parse = (\<lambda>s f now. if f = ''yyyy-MM-dd'' then parse_ymd s else None),
      parseISO = parse_ymd,
      newDate = (\<lambda>s. None)\<rparr>"

text \<open>
  The first sample row of the source. (There \<^verbatim>\<open>Count\<close> is the number 2444, which \<^verbatim>\<open>Number\<close>
  reads as it reads the numeral.)
\<close>

definition sampleRow1 :: rawrow where
  "sampleRow1 =
     [(''Date'', ''2025-08-26''), (''Campaign'', ''DM3-B''), (''Category'', ''FL''),
      (''Part'', ''Batch 2''), (''Batch'', ''B2''), (''Count'', ''2444''), (''Cost'', []),
      (''Channels'', ''Mail,Text,Voicemail'')]"

text \<open>
  Rows that carry a date and a count only, and the events they normalize to under \<open>sampleLib\<close>
  (no channel text, so all three channels): row \<open>i\<close> of a sheet gives \<open>countEvent i c\<close>.
\<close>

definition countRow :: "string \<Rightarrow> rawrow" where
  "countRow c = [(''Date'', ''2025-08-26''), (''Count'', c)]"

definition countEvent :: "nat \<Rightarrow> string \<Rightarrow> date event" where
  "countEvent i c =
     \<lparr>hasMail = True, hasText = True, hasVM = True,
      id = i, raw = countRow c, mailDate = LocalMs 1756166400000,
      count = numberOr0 (Some c), campaign = ''(Unnamed)'', category = [],
      part = [], batch = [], batchNum = None, cost = Fin 0\<rparr>"

text \<open>The value of a finite number, to state sums.\<close>

fun finVal :: "jsnum \<Rightarrow> rat" where
  "finVal (Fin q) = q"
| "finVal _ = 0"

definition isInteger :: "jsnum \<Rightarrow> bool" where
  "isInteger x = (case x of Fin q \<Rightarrow> of_int \<lfloor>q\<rfloor> = q | _ \<Rightarrow> False)"

text \<open>
  A row whose adjusted date is a note, not a date, next to a good \<^verbatim>\<open>Date\<close>; and two one-row
  sheets whose headers differ in letter case only.
\<close>

definition tbdRow :: rawrow where
  "tbdRow =
     [(''Date'', ''2025-08-26''), (''Campaign'', ''DM 1''), (''Count'', ''100''),
      (''Red - Adjusted Dates'', ''TBD'')]"

definition upperRow :: rawrow where
  "upperRow = [(''Date'', ''2025-08-26''), (''Campaign'', ''DM 1''), (''Count'', ''100'')]"

definition lowerRow :: rawrow where
  "lowerRow = [(''date'', ''2025-08-26''), (''campaign'', ''DM 1''), (''count'', ''100'')]"

text \<open>
  The search string of a row (\<^verbatim>\<open>tagsStr + ' ' + channelsStr\<close>), the three flags of an event,
  and a dated row that carries tags and channels only.
\<close>

definition rowSearch :: "rawrow \<Rightarrow> string" where
  "rowSearch r = searchString (orElse (cell r ''Tags'') []) (orElse (cell r ''Channels'') [])"

definition flagsOf :: "'d event \<Rightarrow> flags" where
  "flagsOf e = \<lparr>hasMail = hasMail e, hasText = hasText e, hasVM = hasVM e\<rparr>"

definition chanRow :: "string \<Rightarrow> string \<Rightarrow> rawrow" where
  "chanRow tags channels =
     [(''Date'', ''2025-08-26''), (''Tags'', tags), (''Channels'', channels)]"

text \<open>
  For the proofs about \<open>monthAgg\<close>: a map whose values are all finite, the value under a key
  read as a rational (0 without the key), and the events that count for a month key.
\<close>

definition allFin :: "(string \<times> jsnum) list \<Rightarrow> bool" where
  "allFin m = (\<forall>x \<in> snd ` set m. \<exists>q. x = Fin q)"

definition monthTotal :: "(string \<times> jsnum) list \<Rightarrow> string \<Rightarrow> rat" where
  "monthTotal m k = (case map_of m k of None \<Rightarrow> 0 | Some x \<Rightarrow> finVal x)"

definition mailIn :: "string \<Rightarrow> date event \<Rightarrow> bool" where
  "mailIn k e = (hasMail e \<and> monthKey (mailDate e) = k)"

text \<open>
  Reading back what \<open>show_nat\<close>, \<open>show_int\<close> and \<open>padStart\<close> wrote, and the year part of a
  month key; they show that a month key determines the year and the month. Two dates are in
  the same month when \<^verbatim>\<open>getYear\<close> and \<^verbatim>\<open>getMonth\<close> agree on them.
\<close>

definition read_nat :: "string \<Rightarrow> nat" where
  "read_nat s = foldl (\<lambda>n c. 10 * n + (code c - 48)) 0 s"

definition read_int :: "string \<Rightarrow> int" where
  "read_int s = (if s \<noteq> [] \<and> hd s = CHR ''-'' then - int (read_nat (tl s)) else int (read_nat s))"

definition yearPart :: "string \<Rightarrow> string" where
  "yearPart k =
     (if k \<noteq> [] \<and> hd k = CHR ''-'' then CHR ''-'' # takeWhile is_digit (tl k)
      else takeWhile is_digit k)"

definition sameMonth :: "date \<Rightarrow> date \<Rightarrow> bool" where
  "sameMonth d d' = (getYear d = getYear d' \<and> getMonth d = getMonth d')"

section \<open>Properties of the channel classifier\<close>

lemma ends_token_Alt:
  "ends (token (Alt a b)) s i \<noteq> [] \<longleftrightarrow> ends (token a) s i \<noteq> [] \<or> ends (token b) s i \<noteq> []"
  by (cases "at_boundary s i") (auto simp: token_def)

lemma rx_test_token_Alt:
  "rx_test (token (Alt a b)) s \<longleftrightarrow> rx_test (token a) s \<or> rx_test (token b) s"
  unfolding rx_test_def list_ex_iff ends_token_Alt by blast

lemma anyToken_iff: "anyToken src \<longleftrightarrow> hasMailToken src \<or> hasTextToken src \<or> hasVmToken src"
  unfolding anyToken_def hasMailToken_def hasTextToken_def hasVmToken_def rx_text_def rx_vm_def
    rx_test_token_Alt
  by blast

text \<open>The flags in closed form: what the five assignments amount to.\<close>

lemma classify_closed_form:
  "classify src =
     \<lparr>hasMail = (if anyToken src then hasMailToken src else True) \<and> \<not> hasNoMailTag src,
      hasText = ((hasTextToken src \<or> \<not> anyToken src \<or> (hasMailToken src \<and> \<not> hasNoMailTag src))
                 \<and> \<not> noText src),
      hasVM = ((hasVmToken src \<or> \<not> anyToken src \<or> (hasMailToken src \<and> \<not> hasNoMailTag src))
               \<and> \<not> noVM src)\<rparr>"
  by (auto simp add: classify_def Let_def)

text \<open>
  C4, as stated, fails: \<^verbatim>\<open>nomail\<close> matches \<open>hasNoMailTag\<close>, and \<open>anyToken\<close> is false on it (so
  is it on the search string of a row tagged \<^verbatim>\<open>NoMail\<close>).
\<close>

theorem anyToken_nomail_counterexample:
  "\<not> (anyToken ''nomail'' \<longleftrightarrow>
        hasNoMailTag ''nomail'' \<or> hasMailToken ''nomail'' \<or> hasTextToken ''nomail''
        \<or> hasVmToken ''nomail'')
   \<and> hasNoMailTag (searchString ''NoMail'' []) \<and> \<not> anyToken (searchString ''NoMail'' [])"
  by code_simp

text \<open>
  C4, amended. For every search string, \<open>anyToken\<close> is true if and only if at least one of the
  three channel token classes \<open>hasMailToken\<close>, \<open>hasTextToken\<close>, \<open>hasVmToken\<close> matched; the
  no-mail tag does not count. On \<^verbatim>\<open>nomail\<close>, which matches \<open>hasNoMailTag\<close> only, \<open>anyToken\<close> is
  false and rule 2 applies: no mail, text and voicemail.
\<close>

theorem anyToken_three_classes:
  "(anyToken src \<longleftrightarrow> hasMailToken src \<or> hasTextToken src \<or> hasVmToken src)
   \<and> hasNoMailTag ''nomail'' \<and> \<not> anyToken ''nomail''
   \<and> classify ''nomail'' = \<lparr>hasMail = False, hasText = True, hasVM = True\<rparr>"
proof -
  have "hasNoMailTag ''nomail'' \<and> \<not> anyToken ''nomail''
    \<and> classify ''nomail'' = \<lparr>hasMail = False, hasText = True, hasVM = True\<rparr>"
    by code_simp
  with anyToken_iff [of src] show ?thesis by blast
qed

theorem anyToken_three_classes_witness:
  "anyToken ''no mail'' \<and> hasMailToken ''no mail'' \<and> hasNoMailTag ''no mail''"
proof -
  have "hasMailToken ''no mail'' \<and> hasNoMailTag ''no mail''" by code_simp
  with anyToken_three_classes [of "''no mail''"] show ?thesis by blast
qed

section \<open>Properties of the row normalizer\<close>

lemma normalizeRow_mailDate [simp]: "mailDate (normalizeRow lib now i r) = rowDate lib now r"
  by (simp add: normalizeRow_def Let_def)

lemma dataFrom_Nil [simp]: "dataFrom lib now n [] = []"
  by (simp add: dataFrom_def)

lemma dataFrom_Cons [simp]:
  "dataFrom lib now n (r # rows) = keepDated (normalizeRow lib now n r) @ dataFrom lib now (Suc n) rows"
  by (simp add: dataFrom_def)

lemma data_dataFrom: "data lib now rows = dataFrom lib now 0 rows"
  by (simp add: data_def dataFrom_def)

lemma keepDated_id_raw:
  "map (\<lambda>e. (id e, raw e)) (keepDated (normalizeRow lib now n r)) =
     (if rowDate lib now r \<noteq> None then [(n, r)] else [])"
  by (simp add: keepDated_def normalizeRow_def Let_def split: option.splits)

lemma dataFrom_id_raw:
  "map (\<lambda>e. (id e, raw e)) (dataFrom lib now n rows) =
     filter (\<lambda>(i, r). rowDate lib now r \<noteq> None) (enumerate n rows)"
  by (induction rows arbitrary: n) (simp_all add: keepDated_id_raw)

lemma length_filter_enumerate:
  "length (filter (\<lambda>(i, r). P r) (enumerate n rows)) = length (filter P rows)"
  by (induction rows arbitrary: n) simp_all

lemma length_data:
  "length (data lib now rows) = length (filter (\<lambda>r. rowDate lib now r \<noteq> None) rows)"
proof -
  have "length (data lib now rows) = length (map (\<lambda>e. (id e, raw e)) (dataFrom lib now 0 rows))"
    by (simp add: data_dataFrom)
  also have "\<dots> = length (filter (\<lambda>r. rowDate lib now r \<noteq> None) rows)"
    by (simp only: dataFrom_id_raw length_filter_enumerate)
  finally show ?thesis .
qed

text \<open>
  C8. For every list of raw rows, normalization drops exactly the rows whose date does not
  resolve and keeps all others, in order and with their row index: the number of events plus the
  number of rows without a resolvable date is the number of rows, so there are at most as many
  events as rows. The result is a plain list: a dropped row leaves no error behind.
\<close>

theorem unparseable_rows_dropped:
  "length (data lib now rows) + length (filter (\<lambda>r. rowDate lib now r = None) rows) = length rows
   \<and> length (data lib now rows) \<le> length rows
   \<and> map (\<lambda>e. (id e, raw e)) (data lib now rows)
       = filter (\<lambda>(i, r). rowDate lib now r \<noteq> None) (enumerate 0 rows)"
proof -
  have "length (filter (\<lambda>r. rowDate lib now r \<noteq> None) rows)
          + length (filter (\<lambda>r. rowDate lib now r = None) rows) = length rows"
    using sum_length_filter_compl [of "\<lambda>r. rowDate lib now r \<noteq> None" rows] by simp
  then show ?thesis
    by (simp add: length_data) (simp add: data_dataFrom dataFrom_id_raw)
qed

lemma tryParseDate_sample: "tryParseDate sampleLib now (Some ''2025-08-26'') = Some (LocalMs 1756166400000)"
  by code_simp

lemma tryParseDate_TBD: "tryParseDate sampleLib now (Some ''TBD'') = None"
  by code_simp

lemma rowDate_sampleRow1: "rowDate sampleLib now sampleRow1 = Some (LocalMs 1756166400000)"
  by (simp add: rowDate_def sampleRow1_def cell_def orCell_def truthy_def tryParseDate_sample)

lemma rowDate_tbdRow: "rowDate sampleLib now tbdRow = None"
  by (simp add: rowDate_def tbdRow_def cell_def orCell_def truthy_def tryParseDate_TBD)

theorem unparseable_rows_dropped_witness:
  "length (data sampleLib (LocalMs 0) [sampleRow1, tbdRow]) = 1
   \<and> length (filter (\<lambda>r. rowDate sampleLib (LocalMs 0) r = None) [sampleRow1, tbdRow]) = 1
   \<and> map (\<lambda>e. (id e, raw e)) (data sampleLib (LocalMs 0) [sampleRow1, tbdRow]) = [(0, sampleRow1)]"
  using unparseable_rows_dropped [of sampleLib "LocalMs 0" "[sampleRow1, tbdRow]"]
  by (simp add: rowDate_sampleRow1 rowDate_tbdRow enumerate_simps)

lemma id_set_data:
  "id ` set (data lib now rows) = {i. i < length rows \<and> rowDate lib now (rows ! i) \<noteq> None}"
proof -
  have "id ` set (data lib now rows) = fst ` set (map (\<lambda>e. (id e, raw e)) (data lib now rows))"
    by (simp add: image_image)
  also have "\<dots> = fst ` set (filter (\<lambda>(i, r). rowDate lib now r \<noteq> None) (enumerate 0 rows))"
    by (simp only: data_dataFrom dataFrom_id_raw)
  also have "\<dots> = {i. i < length rows \<and> rowDate lib now (rows ! i) \<noteq> None}"
    by (auto simp: in_set_enumerate_eq image_iff)
  finally show ?thesis .
qed

text \<open>
  C10. The date of a row is read from the adjusted-date cell whenever that cell is not empty,
  and from \<^verbatim>\<open>Date\<close> only when it is empty or absent. So a row whose adjusted date is not
  empty and does not parse has no date, whatever its \<^verbatim>\<open>Date\<close> cell holds, and no event of
  the output comes from it.
\<close>

theorem adjusted_date_no_fallback:
  "rowDate lib now r =
     (if truthy (cell r ''Red - Adjusted Dates'')
      then tryParseDate lib now (cell r ''Red - Adjusted Dates'')
      else tryParseDate lib now (cell r ''Date''))
   \<and> (cell r ''Red - Adjusted Dates'' = Some s \<and> s \<noteq> [] \<and> tryParseDate lib now (Some s) = None
        \<longrightarrow> rowDate lib now r = None
            \<and> (\<forall>rows i. i < length rows \<and> rows ! i = r \<longrightarrow> i \<notin> id ` set (data lib now rows)))"
  by (auto simp: rowDate_def orCell_def truthy_def id_set_data)

theorem adjusted_date_no_fallback_witness:
  "cell tbdRow ''Red - Adjusted Dates'' = Some ''TBD'' \<and> ''TBD'' \<noteq> []
   \<and> tryParseDate sampleLib (LocalMs 0) (Some ''TBD'') = None
   \<and> tryParseDate sampleLib (LocalMs 0) (cell tbdRow ''Date'') \<noteq> None
   \<and> rowDate sampleLib (LocalMs 0) tbdRow = None
   \<and> 0 \<notin> id ` set (data sampleLib (LocalMs 0) [tbdRow])"
proof -
  have h: "cell tbdRow ''Red - Adjusted Dates'' = Some ''TBD'' \<and> ''TBD'' \<noteq> []
      \<and> tryParseDate sampleLib (LocalMs 0) (Some ''TBD'') = None"
    by (simp add: tbdRow_def cell_def tryParseDate_TBD)
  have d: "tryParseDate sampleLib (LocalMs 0) (cell tbdRow ''Date'') \<noteq> None"
    by (simp add: tbdRow_def cell_def tryParseDate_sample)
  from adjusted_date_no_fallback [of sampleLib "LocalMs 0" tbdRow "''TBD''"] h
  have "rowDate sampleLib (LocalMs 0) tbdRow = None
      \<and> (\<forall>rows i. i < length rows \<and> rows ! i = tbdRow
            \<longrightarrow> i \<notin> id ` set (data sampleLib (LocalMs 0) rows))"
    by blast
  then have "rowDate sampleLib (LocalMs 0) tbdRow = None
      \<and> 0 \<notin> id ` set (data sampleLib (LocalMs 0) [tbdRow])"
    by (metis length_Cons nth_Cons_0 zero_less_Suc)
  with h d show ?thesis by blast
qed

section \<open>Counts and costs\<close>

lemmas number_defs = js_Number_def trim_def is_space_def white_space_def unsigned_decimal_def
  is_digit_def code_def radix_literal_def digit_in_def exponent_part_def pow10_def

lemma numberOr0_minus5: "numberOr0 (Some ''-5'') = Fin (- 5)"
  by (simp add: numberOr0_def or0_def number_defs)

lemma numberOr0_frac: "numberOr0 (Some ''2.5'') = Fin (5 / 2)"
  by (simp add: numberOr0_def or0_def number_defs)

lemma numberOr0_100: "numberOr0 (Some ''100'') = Fin 100"
  by (simp add: numberOr0_def or0_def number_defs)

lemma numberOr0_junk: "numberOr0 (Some ''2,444'') = Fin 0"
  by (simp add: numberOr0_def or0_def number_defs)

lemma numberOr0_None: "numberOr0 None = Fin 0"
  by (simp add: numberOr0_def or0_def)

lemma classify_blank: "classify (searchString [] []) = \<lparr>hasMail = True, hasText = True, hasVM = True\<rparr>"
  by code_simp

lemma inferBatchNum_blank: "inferBatchNum [] [] = None"
  by code_simp

lemma data_single: "data lib now [r] = keepDated (normalizeRow lib now 0 r)"
  by (simp add: data_dataFrom)

lemma rowDate_countRow: "rowDate sampleLib now (countRow c) = Some (LocalMs 1756166400000)"
  by (simp add: rowDate_def countRow_def cell_def orCell_def truthy_def tryParseDate_sample)

lemma normalize_countRow:
  "keepDated (normalizeRow sampleLib now i (countRow c)) = [countEvent i c]"
  by (simp add: keepDated_def rowDate_countRow)
     (simp add: normalizeRow_def countRow_def countEvent_def cell_def orElse_def truthy_def
       classify_blank inferBatchNum_blank numberOr0_None)

text \<open>
  C9, as stated, fails: a \<^verbatim>\<open>Count\<close> cell \<^verbatim>\<open>-5\<close> gives the count \<open>-5\<close>, and \<^verbatim>\<open>2.5\<close> gives
  \<open>5/2\<close>; neither is a non-negative integer.
\<close>

theorem count_negative_counterexample:
  "map event.count (data sampleLib (LocalMs 0) [countRow ''-5'']) = [Fin (- 5)]
   \<and> map event.count (data sampleLib (LocalMs 0) [countRow ''2.5'']) = [Fin (5 / 2)]"
  by (simp add: data_single normalize_countRow countEvent_def numberOr0_minus5 numberOr0_frac)

lemma digit_in_10: "is_digit c \<Longrightarrow> digit_in 10 c = Some (code c - 48)"
  by (auto simp: digit_in_def is_digit_def)

lemma digits_in_all: "list_all is_digit ds \<Longrightarrow> \<exists>n. digits_in 10 acc ds = Some n"
  by (induction ds arbitrary: acc) (simp_all add: digit_in_10)

lemma digit_not_space: "is_digit c \<Longrightarrow> \<not> is_space c"
  by (auto simp: is_digit_def is_space_def white_space_def code_def)

lemma digit_not_marker:
  "is_digit c \<Longrightarrow> c \<notin> set ''xXoObB-+I''"
  by (auto simp: is_digit_def code_def)

lemma dropWhile_none: "xs = [] \<or> \<not> P (hd xs) \<Longrightarrow> dropWhile P xs = xs"
  by (cases xs) auto

lemma trim_digits: "list_all is_digit ds \<Longrightarrow> trim ds = ds"
proof -
  assume a: "list_all is_digit ds"
  have 1: "dropWhile is_space ds = ds"
    using a by (intro dropWhile_none) (cases ds, auto simp: digit_not_space)
  have "list_all is_digit (rev ds)" using a by (simp add: list_all_iff)
  then have 2: "dropWhile is_space (rev ds) = rev ds"
    by (intro dropWhile_none) (cases "rev ds", auto simp: digit_not_space)
  show ?thesis by (simp add: trim_def 1 2)
qed

lemma unsigned_decimal_digits:
  assumes "ds \<noteq> []" "list_all is_digit ds" "radix_literal 10 ds = Some n"
  shows "unsigned_decimal ds = Fin (of_nat n)"
proof -
  have "hd ds \<in> set ds" using assms(1) by simp
  then have "is_digit (hd ds)" using assms(2) by (simp add: list_all_iff)
  then have "hd ds \<noteq> CHR ''I''" using digit_not_marker [of "hd ds"] by auto
  then have ni: "ds \<noteq> ''Infinity''" by auto
  have tw: "takeWhile is_digit ds = ds" "dropWhile is_digit ds = []"
    using assms(2) by (simp_all add: list_all_iff)
  show ?thesis
    using assms(1,3) ni
    by (simp add: unsigned_decimal_def tw Let_def exponent_part_def pow10_def)
qed

lemma js_Number_digits:
  assumes "ds \<noteq> []" "list_all is_digit ds"
  shows "\<exists>n::nat. radix_literal 10 ds = Some n \<and> js_Number ds = Fin (of_nat n)"
proof -
  obtain n where n: "radix_literal 10 ds = Some n"
    using digits_in_all [OF assms(2), of 0] assms(1) by (auto simp: radix_literal_def)
  have hd: "is_digit (hd ds)" using assms by (cases ds) auto
  have m0: "hd ds \<noteq> CHR ''-''" "hd ds \<noteq> CHR ''+''"
    using digit_not_marker [OF hd] by auto
  have m1: "2 \<le> length ds \<Longrightarrow> ds ! 1 \<notin> set ''xXoObB''"
  proof -
    assume "2 \<le> length ds"
    then have "ds ! 1 \<in> set ds" by simp
    then have "is_digit (ds ! 1)" using assms(2) by (simp add: list_all_iff)
    then show ?thesis using digit_not_marker [of "ds ! 1"] by auto
  qed
  have "js_Number ds = unsigned_decimal ds"
    using assms(1) m0 m1 by (auto simp add: js_Number_def trim_digits [OF assms(2)] Let_def)
  then show ?thesis using n unsigned_decimal_digits [OF assms n] by simp
qed

lemma numberOr0_eq:
  "numberOr0 v = (case v of None \<Rightarrow> Fin 0 | Some s \<Rightarrow> if js_Number s = NaN then Fin 0 else js_Number s)"
  by (auto simp: numberOr0_def or0_def split: option.splits)

lemma keepDated_fields:
  assumes "e \<in> set (keepDated x)"
  shows "keepDated x = [e]" "mailDate x = Some (mailDate e)"
    "hasMail e = hasMail x" "hasText e = hasText x" "hasVM e = hasVM x"
    "id e = id x" "raw e = raw x" "event.count e = event.count x" "campaign e = campaign x"
    "category e = category x" "part e = part x" "batch e = batch x" "batchNum e = batchNum x"
    "cost e = cost x"
  using assms by (cases "mailDate x"; simp add: keepDated_def)+

lemma normalizeRow_fields [simp]:
  "id (normalizeRow lib now i r) = i"
  "raw (normalizeRow lib now i r) = r"
  "event.count (normalizeRow lib now i r) = numberOr0 (cell r ''Count'')"
  "cost (normalizeRow lib now i r) = numberOr0 (cell r ''Cost'')"
  "campaign (normalizeRow lib now i r) = orElse (cell r ''Campaign'') ''(Unnamed)''"
  "part (normalizeRow lib now i r) = orElse (cell r ''Part'') []"
  "batch (normalizeRow lib now i r) = orElse (cell r ''Batch'') []"
  by (simp_all add: normalizeRow_def Let_def)

lemma dataFrom_event:
  "e \<in> set (dataFrom lib now n rows) \<Longrightarrow>
     \<exists>i r. r \<in> set rows \<and> e \<in> set (keepDated (normalizeRow lib now i r))"
proof (induction rows arbitrary: n)
  case Nil
  then show ?case by simp
next
  case (Cons r rows)
  from Cons.prems have "e \<in> set (keepDated (normalizeRow lib now n r)) \<or> e \<in> set (dataFrom lib now (Suc n) rows)"
    by simp
  then show ?case
  proof
    assume "e \<in> set (keepDated (normalizeRow lib now n r))"
    then show ?thesis by (meson list.set_intros(1))
  next
    assume "e \<in> set (dataFrom lib now (Suc n) rows)"
    from Cons.IH [OF this] show ?thesis by (meson list.set_intros(2))
  qed
qed

lemma data_event_numbers:
  assumes "e \<in> set (data lib now rows)"
  shows "event.count e = numberOr0 (cell (raw e) ''Count'') \<and> cost e = numberOr0 (cell (raw e) ''Cost'')"
proof -
  obtain i r where "e \<in> set (keepDated (normalizeRow lib now i r))"
    using dataFrom_event assms unfolding data_dataFrom by blast
  from keepDated_fields(7,8,14) [OF this] show ?thesis by simp
qed

text \<open>
  C9, amended. For every event of the output, \<open>count\<close> is what \<^verbatim>\<open>Number\<close> reads from the
  \<^verbatim>\<open>Count\<close> cell of its row when that is a number, and 0 when the cell is absent or does not
  parse; nothing makes it non-negative or an integer. When the cell is a non-empty string of at
  most 15 decimal digits (an integer that a number holds exactly), \<open>count\<close> is the non-negative
  integer they denote. Likewise \<open>cost\<close> and \<^verbatim>\<open>Cost\<close>.
\<close>

theorem count_is_number_or_zero:
  "\<forall>e \<in> set (data lib now rows).
      event.count e = (case cell (raw e) ''Count'' of None \<Rightarrow> Fin 0
                       | Some s \<Rightarrow> if js_Number s = NaN then Fin 0 else js_Number s)
    \<and> cost e = (case cell (raw e) ''Cost'' of None \<Rightarrow> Fin 0
                | Some s \<Rightarrow> if js_Number s = NaN then Fin 0 else js_Number s)
    \<and> (\<forall>ds. cell (raw e) ''Count'' = Some ds \<and> ds \<noteq> [] \<and> length ds \<le> 15
              \<and> list_all is_digit ds
          \<longrightarrow> (\<exists>n::nat. radix_literal 10 ds = Some n \<and> event.count e = Fin (of_nat n)))
    \<and> (\<forall>ds. cell (raw e) ''Cost'' = Some ds \<and> ds \<noteq> [] \<and> length ds \<le> 15
              \<and> list_all is_digit ds
          \<longrightarrow> (\<exists>n::nat. radix_literal 10 ds = Some n \<and> cost e = Fin (of_nat n)))"
proof
  fix e assume e: "e \<in> set (data lib now rows)"
  note nums = data_event_numbers [OF e]
  have a: "event.count e = (case cell (raw e) ''Count'' of None \<Rightarrow> Fin 0
                       | Some s \<Rightarrow> if js_Number s = NaN then Fin 0 else js_Number s)"
    using nums by (simp add: numberOr0_eq)
  have b: "cost e = (case cell (raw e) ''Cost'' of None \<Rightarrow> Fin 0
                | Some s \<Rightarrow> if js_Number s = NaN then Fin 0 else js_Number s)"
    using nums by (simp add: numberOr0_eq)
  have c: "\<exists>n::nat. radix_literal 10 ds = Some n \<and> event.count e = Fin (of_nat n)"
    if "cell (raw e) ''Count'' = Some ds \<and> ds \<noteq> [] \<and> length ds \<le> 15
          \<and> list_all is_digit ds" for ds
    using that js_Number_digits [of ds] a by auto
  have d: "\<exists>n::nat. radix_literal 10 ds = Some n \<and> cost e = Fin (of_nat n)"
    if "cell (raw e) ''Cost'' = Some ds \<and> ds \<noteq> [] \<and> length ds \<le> 15
          \<and> list_all is_digit ds" for ds
    using that js_Number_digits [of ds] b by auto
  show "event.count e = (case cell (raw e) ''Count'' of None \<Rightarrow> Fin 0
                       | Some s \<Rightarrow> if js_Number s = NaN then Fin 0 else js_Number s)
    \<and> cost e = (case cell (raw e) ''Cost'' of None \<Rightarrow> Fin 0
                | Some s \<Rightarrow> if js_Number s = NaN then Fin 0 else js_Number s)
    \<and> (\<forall>ds. cell (raw e) ''Count'' = Some ds \<and> ds \<noteq> [] \<and> length ds \<le> 15
              \<and> list_all is_digit ds
          \<longrightarrow> (\<exists>n::nat. radix_literal 10 ds = Some n \<and> event.count e = Fin (of_nat n)))
    \<and> (\<forall>ds. cell (raw e) ''Cost'' = Some ds \<and> ds \<noteq> [] \<and> length ds \<le> 15
              \<and> list_all is_digit ds
          \<longrightarrow> (\<exists>n::nat. radix_literal 10 ds = Some n \<and> cost e = Fin (of_nat n)))"
    using a b c d by blast
qed

lemma radix_100: "radix_literal 10 ''100'' = Some 100"
  by code_simp

theorem count_is_number_or_zero_witness:
  "countEvent 0 ''100'' \<in> set (data sampleLib (LocalMs 0) [countRow ''100''])
   \<and> cell (raw (countEvent 0 ''100'')) ''Count'' = Some ''100'' \<and> list_all is_digit ''100''
   \<and> event.count (countEvent 0 ''100'') = Fin 100
   \<and> cost (countEvent 0 ''100'') = Fin 0"
proof -
  have m: "countEvent 0 ''100'' \<in> set (data sampleLib (LocalMs 0) [countRow ''100''])"
    by (simp add: data_single normalize_countRow)
  have c: "cell (raw (countEvent 0 ''100'')) ''Count'' = Some ''100''"
    "cell (raw (countEvent 0 ''100'')) ''Cost'' = None"
    by (simp_all add: countEvent_def countRow_def cell_def)
  have d: "list_all is_digit ''100''" "''100'' \<noteq> []"
    by (simp_all add: is_digit_def code_def)
  from count_is_number_or_zero [of sampleLib "LocalMs 0" "[countRow ''100'']"] m
  have "(\<forall>ds. cell (raw (countEvent 0 ''100'')) ''Count'' = Some ds \<and> ds \<noteq> [] \<and> length ds \<le> 15
              \<and> list_all is_digit ds
          \<longrightarrow> (\<exists>n::nat. radix_literal 10 ds = Some n \<and> event.count (countEvent 0 ''100'') = Fin (of_nat n)))
      \<and> cost (countEvent 0 ''100'') = (case cell (raw (countEvent 0 ''100'')) ''Cost'' of None \<Rightarrow> Fin 0
                | Some s \<Rightarrow> if js_Number s = NaN then Fin 0 else js_Number s)"
    by blast
  then have "(\<exists>n::nat. radix_literal 10 ''100'' = Some n \<and> event.count (countEvent 0 ''100'') = Fin (of_nat n))
      \<and> cost (countEvent 0 ''100'') = Fin 0"
    using c d by simp
  then have "event.count (countEvent 0 ''100'') = Fin 100 \<and> cost (countEvent 0 ''100'') = Fin 0"
    by (auto simp: radix_100)
  with m c d show ?thesis by simp
qed

section \<open>Header names\<close>

lemma rowDate_lowerRow: "rowDate lib now lowerRow = None"
  by (simp add: rowDate_def lowerRow_def cell_def orCell_def truthy_def tryParseDate_def)

lemma rowDate_upperRow: "rowDate sampleLib now upperRow = Some (LocalMs 1756166400000)"
  by (simp add: rowDate_def upperRow_def cell_def orCell_def truthy_def tryParseDate_sample)

text \<open>
  C5 does not hold of the code: the cells are read under the exact keys \<^verbatim>\<open>Date\<close>,
  \<^verbatim>\<open>Campaign\<close>, \<^verbatim>\<open>Count\<close>, ... A sheet whose headers are in lower case has no such key, so its
  row has no date and is dropped, under every date library; the same row under capitalised
  headers normalizes to an event.
\<close>

theorem header_case_matters:
  "data lib now [lowerRow] = []
   \<and> map (\<lambda>e. (mailDate e, campaign e, event.count e)) (data sampleLib now [upperRow])
       = [(LocalMs 1756166400000, ''DM 1'', Fin 100)]"
proof -
  have "data lib now [lowerRow] = []"
    by (simp add: data_single keepDated_def rowDate_lowerRow)
  moreover have "map (\<lambda>e. (mailDate e, campaign e, event.count e)) (data sampleLib now [upperRow])
       = [(LocalMs 1756166400000, ''DM 1'', Fin 100)]"
    by (simp add: data_single keepDated_def rowDate_upperRow)
       (simp add: normalizeRow_def upperRow_def cell_def orElse_def truthy_def numberOr0_100 Let_def)
  ultimately show ?thesis by simp
qed

section \<open>Properties of the task deriver\<close>

lemma fold_tasksFor:
  "fold (\<lambda>r items. items @ tasksFor r) evs acc = acc @ concat (map tasksFor evs)"
  by (induction evs arbitrary: acc) simp_all

lemma mset_tasks: "mset (tasks evs) = mset (concat (map tasksFor evs))"
  by (simp add: tasks_def fold_tasksFor)

lemma set_tasks: "set (tasks evs) = (\<Union>e\<in>set evs. set (tasksFor e))"
  by (simp add: tasks_def fold_tasksFor)

lemma tasksFor_type_date:
  "map (\<lambda>t. (type t, date t)) (tasksFor e) =
      (if hasMail e then [(''mail'', mailDate e)] else [])
      @ (if hasText e
         then [(''text'', if hasMail e then addDays (mailDate e) 13 else mailDate e)] else [])
      @ (if hasVM e
         then [(''vm'', if hasMail e then addDays (mailDate e) 13 else mailDate e)] else [])"
  by (simp add: tasksFor_def Let_def)

lemma tasksFor_ref: "t \<in> set (tasksFor e) \<Longrightarrow> ref t = e"
  by (auto simp: tasksFor_def Let_def split: if_splits)

lemma tasksFor_idKey:
  "t \<in> set (tasksFor e) \<Longrightarrow>
     idKey t = type t @ ''|'' @ format_ymd (date t) @ ''|'' @ campaign e @ ''|'' @ part e
               @ ''|'' @ batch e"
  by (auto simp: tasksFor_def idKeyOf_def Let_def split: if_splits)

lemma dayNumber_addDays: "dayNumber (addDays d n) = dayNumber d + n"
  by (simp add: dayNumber_def addDays_def msPerDay_def)

lemma show_nat_2025: "show_nat 2025 = ''2025''" by code_simp
lemma show_nat_8: "show_nat 8 = ''8''" by code_simp
lemma show_nat_9: "show_nat 9 = ''9''" by code_simp
lemma show_nat_26: "show_nat 26 = ''26''" by code_simp

lemma day_aug26: "days_from_civil 2025 8 26 = 20326"
  by code_simp

lemma civil_20326: "civil_from_days 20326 = (2025, 8, 26)"
  by code_simp

lemma civil_20339: "civil_from_days 20339 = (2025, 9, 8)"
  by code_simp

lemma format_day_20326: "dayNumber d = 20326 \<Longrightarrow> format_ymd d = ''2025-08-26''"
  by (simp add: format_ymd_def getFullYear_def getMonth_def getDate_def civil_20326
      addLeadingZeros_def padStart_def show_nat_2025 show_nat_8 show_nat_26 Let_def)

lemma format_day_20339: "dayNumber d = 20339 \<Longrightarrow> format_ymd d = ''2025-09-08''"
  by (simp add: format_ymd_def getFullYear_def getMonth_def getDate_def civil_20339
      addLeadingZeros_def padStart_def show_nat_2025 show_nat_8 show_nat_9 Let_def)

text \<open>
  C3. For every event, the tasks pushed for it are, in this order: a mail task dated at the
  event date if and only if \<open>hasMail\<close>; a text task if and only if \<open>hasText\<close>, dated 13 days
  after the event date when \<open>hasMail\<close> and at the event date otherwise; a vm task if and only if
  \<open>hasVM\<close>, dated likewise. Each refers to its event, and the task list of a list of events is
  these tasks, sorted by date. An event with mail on 2025-08-26 has its mail task on 2025-08-26
  and its text and vm tasks on 2025-09-08.
\<close>

theorem tasks_per_event:
  "map (\<lambda>t. (type t, date t)) (tasksFor e) =
      (if hasMail e then [(''mail'', mailDate e)] else [])
      @ (if hasText e
         then [(''text'', if hasMail e then addDays (mailDate e) 13 else mailDate e)] else [])
      @ (if hasVM e
         then [(''vm'', if hasMail e then addDays (mailDate e) 13 else mailDate e)] else [])
   \<and> (\<forall>t \<in> set (tasksFor e). ref t = e)
   \<and> mset (tasks evs) = mset (concat (map tasksFor evs))
   \<and> sorted (map (\<lambda>t. ms (date t)) (tasks evs))
   \<and> (hasMail e \<and> dayNumber (mailDate e) = days_from_civil 2025 8 26 \<longrightarrow>
        map (\<lambda>t. (type t, format_ymd (date t))) (tasksFor e) =
          [(''mail'', ''2025-08-26'')]
          @ (if hasText e then [(''text'', ''2025-09-08'')] else [])
          @ (if hasVM e then [(''vm'', ''2025-09-08'')] else []))"
proof -
  have "map (\<lambda>t. (type t, format_ymd (date t))) (tasksFor e) =
          [(''mail'', ''2025-08-26'')]
          @ (if hasText e then [(''text'', ''2025-09-08'')] else [])
          @ (if hasVM e then [(''vm'', ''2025-09-08'')] else [])"
    if h: "hasMail e" "dayNumber (mailDate e) = days_from_civil 2025 8 26"
  proof -
    have a: "format_ymd (mailDate e) = ''2025-08-26''"
      using h(2) by (simp add: day_aug26 format_day_20326)
    have "dayNumber (addDays (mailDate e) 13) = 20339"
      using h(2) by (simp add: dayNumber_addDays day_aug26)
    then have b: "format_ymd (addDays (mailDate e) 13) = ''2025-09-08''"
      by (rule format_day_20339)
    show ?thesis using h(1) a b by (simp add: tasksFor_def Let_def)
  qed
  moreover have "sorted (map (\<lambda>t. ms (date t)) (tasks evs))"
    by (simp add: tasks_def)
  ultimately show ?thesis
    using tasksFor_type_date [of e] tasksFor_ref [of _ e] mset_tasks [of evs] by blast
qed

lemma countEvent_flags [simp]:
  "hasMail (countEvent i c)" "hasText (countEvent i c)" "hasVM (countEvent i c)"
  "mailDate (countEvent i c) = LocalMs 1756166400000"
  by (simp_all add: countEvent_def)

lemma dayNumber_sample: "dayNumber (LocalMs 1756166400000) = 20326"
  by (simp add: dayNumber_def msPerDay_def)

theorem tasks_per_event_witness:
  "hasMail (countEvent 0 ''100'')
   \<and> dayNumber (mailDate (countEvent 0 ''100'')) = days_from_civil 2025 8 26
   \<and> map (\<lambda>t. (type t, format_ymd (date t))) (tasksFor (countEvent 0 ''100'')) =
       [(''mail'', ''2025-08-26''), (''text'', ''2025-09-08''), (''vm'', ''2025-09-08'')]"
  using tasks_per_event [of "countEvent 0 ''100''" "[]"]
  by (simp add: dayNumber_sample day_aug26)

text \<open>
  C2. The pipeline is a function of the rows and the reference date (and of the date library):
  a second run on the same rows and reference date gives the same events, the same tasks and the
  same identity keys. The key of every task is its type, the task date as \<^verbatim>\<open>yyyy-MM-dd\<close>, and
  the campaign, part and batch of its event, joined by \<^verbatim>\<open>|\<close>.
\<close>

theorem identityKey_stable:
  "(rows' = rows \<and> now' = now \<longrightarrow>
      data lib now' rows' = data lib now rows
      \<and> tasks (data lib now' rows') = tasks (data lib now rows)
      \<and> map idKey (tasks (data lib now' rows')) = map idKey (tasks (data lib now rows)))
   \<and> (\<forall>t \<in> set (tasks (data lib now rows)).
        ref t \<in> set (data lib now rows)
        \<and> idKey t = type t @ ''|'' @ format_ymd (date t) @ ''|'' @ campaign (ref t) @ ''|''
                    @ part (ref t) @ ''|'' @ batch (ref t))"
proof -
  have "ref t \<in> set (data lib now rows)
        \<and> idKey t = type t @ ''|'' @ format_ymd (date t) @ ''|'' @ campaign (ref t) @ ''|''
                    @ part (ref t) @ ''|'' @ batch (ref t)"
    if "t \<in> set (tasks (data lib now rows))" for t
  proof -
    from that obtain e where e: "e \<in> set (data lib now rows)" "t \<in> set (tasksFor e)"
      by (auto simp: set_tasks)
    from tasksFor_ref [OF e(2)] tasksFor_idKey [OF e(2)] e(1) show ?thesis by simp
  qed
  then show ?thesis by blast
qed

lemma format_sample: "format_ymd (LocalMs 1756166400000) = ''2025-08-26''"
  by (rule format_day_20326) (rule dayNumber_sample)

lemma addDays_sample: "addDays (LocalMs 1756166400000) 13 = LocalMs 1757289600000"
  by (simp add: addDays_def msPerDay_def)

lemma format_follow: "format_ymd (LocalMs 1757289600000) = ''2025-09-08''"
  by (rule format_day_20339) (simp add: dayNumber_def msPerDay_def)

lemma classify_all: "classify (searchString [] ''Mail,Text,Voicemail'') = \<lparr>hasMail = True, hasText = True, hasVM = True\<rparr>"
  by code_simp

lemma data_sampleRow1:
  "map (\<lambda>e. (hasMail e, hasText e, hasVM e, mailDate e, campaign e, part e, batch e))
     (data sampleLib now [sampleRow1])
   = [(True, True, True, LocalMs 1756166400000, ''DM3-B'', ''Batch 2'', ''B2'')]"
  by (simp add: data_single keepDated_def rowDate_sampleRow1)
     (simp add: normalizeRow_def sampleRow1_def cell_def orElse_def truthy_def classify_all Let_def)

lemma tasksFor_idKeys:
  "map idKey (tasksFor e) =
     (if hasMail e then [idKeyOf ''mail'' (mailDate e) e] else [])
     @ (if hasText e then [idKeyOf ''text'' (if hasMail e then addDays (mailDate e) 13 else mailDate e) e] else [])
     @ (if hasVM e then [idKeyOf ''vm'' (if hasMail e then addDays (mailDate e) 13 else mailDate e) e] else [])"
  by (simp add: tasksFor_def Let_def)

theorem identityKey_stable_witness:
  "mset (map idKey (tasks (data sampleLib (LocalMs 0) [sampleRow1])))
     = {#''mail|2025-08-26|DM3-B|Batch 2|B2'', ''text|2025-09-08|DM3-B|Batch 2|B2'',
         ''vm|2025-09-08|DM3-B|Batch 2|B2''#}
   \<and> list_all
        (\<lambda>t. idKey t = type t @ ''|'' @ format_ymd (date t) @ ''|'' @ campaign (ref t) @ ''|''
                    @ part (ref t) @ ''|'' @ batch (ref t))
        (tasks (data sampleLib (LocalMs 0) [sampleRow1]))"
proof -
  obtain e where e: "data sampleLib (LocalMs 0) [sampleRow1] = [e]"
    and f: "hasMail e" "hasText e" "hasVM e" "mailDate e = LocalMs 1756166400000"
      "campaign e = ''DM3-B''" "part e = ''Batch 2''" "batch e = ''B2''"
    using data_sampleRow1 [of "LocalMs 0"] by (auto simp: map_eq_Cons_conv)
  have "mset (map idKey (tasks [e])) = mset (map idKey (tasksFor e))"
    using mset_tasks [of "[e]"] by (metis append_Nil2 concat.simps list.simps(8,9) mset_map)
  also have "\<dots> = {#''mail|2025-08-26|DM3-B|Batch 2|B2'', ''text|2025-09-08|DM3-B|Batch 2|B2'',
         ''vm|2025-09-08|DM3-B|Batch 2|B2''#}"
    by (simp add: tasksFor_idKeys f idKeyOf_def addDays_sample format_sample format_follow)
  finally have "mset (map idKey (tasks (data sampleLib (LocalMs 0) [sampleRow1])))
     = {#''mail|2025-08-26|DM3-B|Batch 2|B2'', ''text|2025-09-08|DM3-B|Batch 2|B2'',
         ''vm|2025-09-08|DM3-B|Batch 2|B2''#}"
    by (simp add: e)
  moreover from identityKey_stable [of "[sampleRow1]" "[sampleRow1]" "LocalMs 0" "LocalMs 0" sampleLib]
  have "\<forall>t \<in> set (tasks (data sampleLib (LocalMs 0) [sampleRow1])).
        idKey t = type t @ ''|'' @ format_ymd (date t) @ ''|'' @ campaign (ref t) @ ''|''
                    @ part (ref t) @ ''|'' @ batch (ref t)"
    by blast
  ultimately show ?thesis by (simp add: list_all_iff)
qed

section \<open>The campaign group identity\<close>

text \<open>
  C6 does not hold of the code. The loop over \<^verbatim>\<open>part\<close> stops at the first letter, which in
  \<^verbatim>\<open>Batch A\<close> is the \<^verbatim>\<open>B\<close> of \<^verbatim>\<open>Batch\<close>, and the suffix of the campaign is stripped before the
  loop, so it is gone also when \<^verbatim>\<open>part\<close> has no letter. Of the three values that the runtime
  checks of the source assert (\<^verbatim>\<open>DM 1 - A\<close>, \<^verbatim>\<open>DM 1 - B\<close>, \<^verbatim>\<open>DM 1 - A\<close>), \<^verbatim>\<open>build\<close> returns
  the second only.
\<close>

theorem build_fails_own_checks:
  "build ''DM 1'' ''Batch A'' = ''DM 1 - B''
   \<and> build ''DM 1 - A'' ''Batch B'' = ''DM 1 - B''
   \<and> build ''DM 1 - A'' [] = ''DM 1''"
  by code_simp

section \<open>Properties of the monthly aggregate\<close>

text \<open>A month key determines the year and the month.\<close>

lemma code_digit: "n < 10 \<Longrightarrow> code (char_of (48 + n)) = 48 + n"
  by (simp add: code_def)

lemma read_nat_snoc: "read_nat (s @ [c]) = 10 * read_nat s + (code c - 48)"
  by (simp add: read_nat_def)

lemma read_show_nat: "read_nat (show_nat n) = n"
proof (induction n rule: show_nat.induct)
  case (1 n)
  show ?case
  proof (cases "n < 10")
    case True
    then show ?thesis
      by (subst show_nat.simps) (simp add: read_nat_def code_digit)
  next
    case False
    then have "read_nat (show_nat (n div 10)) = n div 10" using 1 by simp
    with False show ?thesis
      by (subst show_nat.simps) (simp add: read_nat_snoc code_digit)
  qed
qed

lemma is_digit_char_of: "k < 10 \<Longrightarrow> is_digit (char_of (48 + k :: nat))"
  by (simp add: is_digit_def code_digit)

lemma show_nat_digits: "show_nat n \<noteq> [] \<and> list_all is_digit (show_nat n)"
proof (induction n rule: show_nat.induct)
  case (1 n)
  show ?case
  proof (cases "n < 10")
    case True
    then show ?thesis
      by (subst (1 2) show_nat.simps) (simp add: is_digit_char_of)
  next
    case False
    with 1 show ?thesis
      by (subst (1 2) show_nat.simps) (simp add: is_digit_char_of)
  qed
qed

lemma minus_not_digit: "\<not> is_digit CHR ''-''"
  by (simp add: is_digit_def code_def)

lemma hd_show_nat: "hd (show_nat n) \<noteq> CHR ''-''"
proof -
  have "hd (show_nat n) \<in> set (show_nat n)" using show_nat_digits [of n] by simp
  then have "is_digit (hd (show_nat n))" using show_nat_digits [of n] by (simp add: list_all_iff)
  then show ?thesis using minus_not_digit by auto
qed

lemma read_nat_zeros: "read_nat (replicate k CHR ''0'' @ s) = read_nat s"
proof -
  have "foldl (\<lambda>n c. 10 * n + (code c - 48)) 0 (replicate k CHR ''0'') = 0"
    by (induction k) (simp_all add: code_def)
  then show ?thesis by (simp add: read_nat_def)
qed

lemma read_int_padded: "read_int (padStart 2 CHR ''0'' (show_int m)) = m"
proof (cases "m < 0")
  case True
  have "length (show_nat (nat (- m))) \<ge> 1"
    using show_nat_digits [of "nat (- m)"] by (cases "show_nat (nat (- m))") simp_all
  then have "padStart 2 CHR ''0'' (show_int m) = CHR ''-'' # show_nat (nat (- m))"
    using True by (simp add: padStart_def show_int_def)
  then show ?thesis using True by (simp add: read_int_def read_show_nat)
next
  case False
  let ?p = "padStart 2 CHR ''0'' (show_int m)"
  have p: "?p = replicate (2 - length (show_nat (nat m))) CHR ''0'' @ show_nat (nat m)"
    using False by (simp add: padStart_def show_int_def)
  have "hd ?p \<noteq> CHR ''-''"
    unfolding p using hd_show_nat [of "nat m"] show_nat_digits [of "nat m"]
    by (cases "2 - length (show_nat (nat m))") (simp_all add: hd_append)
  then have "read_int ?p = int (read_nat ?p)" by (simp add: read_int_def)
  also have "\<dots> = int (nat m)" unfolding p by (simp add: read_nat_zeros read_show_nat)
  finally show ?thesis using False by simp
qed

lemma read_int_show_int: "read_int (show_int y) = y"
proof (cases "y < 0")
  case True
  then show ?thesis by (simp add: read_int_def show_int_def read_show_nat)
next
  case False
  then show ?thesis
    using hd_show_nat [of "nat y"] by (simp add: read_int_def show_int_def read_show_nat)
qed

lemma takeWhile_digits_minus:
  "list_all is_digit ds \<Longrightarrow> takeWhile is_digit (ds @ CHR ''-'' # rest) = ds"
  by (induction ds) (simp_all add: minus_not_digit)

lemma yearPart_key: "yearPart (show_int y @ CHR ''-'' # rest) = show_int y"
proof (cases "y < 0")
  case True
  then show ?thesis
    using show_nat_digits [of "nat (- y)"]
    by (simp add: yearPart_def show_int_def takeWhile_digits_minus)
next
  case False
  have "hd (show_nat (nat y) @ CHR ''-'' # rest) \<noteq> CHR ''-''"
    using hd_show_nat [of "nat y"] show_nat_digits [of "nat y"] by (simp add: hd_append)
  then show ?thesis
    using False show_nat_digits [of "nat y"]
    by (simp add: yearPart_def show_int_def takeWhile_digits_minus)
qed

lemma monthKey_parts:
  "monthKey d = show_int (getYear d) @ CHR ''-'' # padStart 2 CHR ''0'' (show_int (getMonth d + 1))"
  by (simp add: monthKey_def)

lemma monthKey_eq_iff: "monthKey d = monthKey d' \<longleftrightarrow> sameMonth d d'"
proof
  assume eq: "monthKey d = monthKey d'"
  then have "yearPart (monthKey d) = yearPart (monthKey d')" by simp
  then have y: "show_int (getYear d) = show_int (getYear d')"
    by (simp add: monthKey_parts yearPart_key)
  then have y': "getYear d = getYear d'" by (metis read_int_show_int)
  from eq y have "padStart 2 CHR ''0'' (show_int (getMonth d + 1))
                = padStart 2 CHR ''0'' (show_int (getMonth d' + 1))"
    by (simp add: monthKey_parts)
  then have "getMonth d + 1 = getMonth d' + 1" by (metis read_int_padded)
  with y' show "sameMonth d d'" by (simp add: sameMonth_def)
next
  assume "sameMonth d d'"
  then show "monthKey d = monthKey d'" by (simp add: sameMonth_def monthKey_def)
qed

lemma getOr0_allFin: "allFin m \<Longrightarrow> getOr0 m k = Fin (monthTotal m k)"
proof (cases "map_of m k")
  case None
  then show ?thesis by (simp add: getOr0_def monthTotal_def)
next
  case (Some x)
  assume "allFin m"
  moreover from Some have "x \<in> snd ` set m" by (metis map_of_SomeD snd_conv image_eqI)
  ultimately obtain q where "x = Fin q" by (auto simp: allFin_def)
  with Some show ?thesis by (simp add: getOr0_def monthTotal_def or0_def)
qed

lemma set_update_subset: "set (AList.update k v al) \<subseteq> insert (k, v) (set al)"
  by (induction al) auto

lemma allFin_update: "allFin m \<Longrightarrow> allFin (AList.update k (Fin q) m)"
  unfolding allFin_def using set_update_subset [of k "Fin q" m] by fastforce

lemma monthStep_mail:
  assumes "allFin m" "hasMail r" "event.count r = Fin c"
  shows "monthStep r m
         = AList.update (monthKey (mailDate r)) (Fin (monthTotal m (monthKey (mailDate r)) + c)) m"
  using assms by (simp add: monthStep_def Let_def getOr0_allFin)

lemma monthTotal_update:
  "monthTotal (AList.update k (Fin q) m) k' = (if k' = k then q else monthTotal m k')"
  by (simp add: monthTotal_def update_conv')

lemma fold_monthStep:
  assumes "\<forall>e \<in> set evs. \<exists>q. event.count e = Fin q" "allFin m" "distinct (map fst m)"
  shows "allFin (fold monthStep evs m) \<and> distinct (map fst (fold monthStep evs m))
     \<and> fst ` set (fold monthStep evs m) = fst ` set m \<union> monthKey ` mailDate ` {e \<in> set evs. hasMail e}
     \<and> (\<forall>k. monthTotal (fold monthStep evs m) k
              = monthTotal m k + (\<Sum>e\<leftarrow>filter (mailIn k) evs. finVal (event.count e)))"
  using assms
proof (induction evs arbitrary: m)
  case Nil
  then show ?case by simp
next
  case (Cons r evs)
  obtain c where c: "event.count r = Fin c" using Cons.prems(1) by auto
  show ?case
  proof (cases "hasMail r")
    case False
    then have s: "monthStep r m = m" by (simp add: monthStep_def)
    from Cons.IH [of m] Cons.prems False show ?thesis
      by (simp add: s mailIn_def) blast
  next
    case True
    let ?k = "monthKey (mailDate r)"
    let ?m = "AList.update ?k (Fin (monthTotal m ?k + c)) m"
    have s: "monthStep r m = ?m" using monthStep_mail [OF Cons.prems(2) True c] .
    have 1: "allFin ?m" using Cons.prems(2) by (rule allFin_update)
    have 2: "distinct (map fst ?m)" using Cons.prems(3) by (simp add: distinct_update)
    have 3: "\<forall>e \<in> set evs. \<exists>q. event.count e = Fin q" using Cons.prems(1) by simp
    have keys: "fst ` set ?m = insert ?k (fst ` set m)" by (simp add: AList.dom_update)
    from Cons.IH [OF 3 1 2]
    have ih: "allFin (fold monthStep evs ?m)" "distinct (map fst (fold monthStep evs ?m))"
      "fst ` set (fold monthStep evs ?m) = fst ` set ?m \<union> monthKey ` mailDate ` {e \<in> set evs. hasMail e}"
      "\<And>k. monthTotal (fold monthStep evs ?m) k
              = monthTotal ?m k + (\<Sum>e\<leftarrow>filter (mailIn k) evs. finVal (event.count e))"
      by blast+
    have t: "monthTotal (fold monthStep evs ?m) k
              = monthTotal m k + (\<Sum>e\<leftarrow>filter (mailIn k) (r # evs). finVal (event.count e))" for k
      using True c by (simp add: ih(4) monthTotal_update mailIn_def)
    have d: "fst ` set (fold monthStep evs ?m)
        = fst ` set m \<union> monthKey ` mailDate ` {e \<in> set (r # evs). hasMail e}"
      using True by (auto simp: ih(3) keys)
    show ?thesis
      using ih(1,2) d t by (simp add: s)
  qed
qed

lemma distinct_keys_filter:
  "distinct (map fst xs) \<Longrightarrow> k \<in> set xs \<Longrightarrow> filter (\<lambda>x. fst k = fst x) xs = [k]"
proof (induction xs)
  case Nil
  then show ?case by simp
next
  case (Cons x xs)
  show ?case
  proof (cases "k = x")
    case True
    have "filter (\<lambda>y. fst x = fst y) xs = []"
      using Cons.prems(1) by (auto simp: filter_empty_conv image_iff)
    with True show ?thesis by simp
  next
    case False
    with Cons.prems have k: "k \<in> set xs" by simp
    then have "fst k \<noteq> fst x" using Cons.prems(1) by (auto simp: image_iff)
    with Cons.IH k Cons.prems(1) show ?thesis by simp
  qed
qed

lemma sort_key_fst_unique:
  assumes "distinct (map fst xs)" "distinct (map fst ys)" "map_of xs = map_of ys"
  shows "sort_key fst xs = sort_key fst ys"
proof (rule properties_for_sort_key)
  have s: "set xs = set ys" using assms map_of_inject_set by blast
  have dx: "distinct xs" "distinct ys" using assms(1,2) by (auto simp: distinct_map)
  then have m: "mset xs = mset ys" using s set_eq_iff_mset_eq_distinct by blast
  show "mset (sort_key fst ys) = mset xs" by (simp add: m)
  show "sorted (map fst (sort_key fst ys))" by simp
  show "filter (\<lambda>x. fst k = fst x) (sort_key fst ys) = filter (\<lambda>x. fst k = fst x) xs"
    if "k \<in> set (sort_key fst ys)" for k
  proof -
    have k: "k \<in> set ys" "k \<in> set xs" using that s by simp_all
    have "mset (map fst (sort_key fst ys)) = mset (map fst ys)" by simp
    then have "distinct (map fst (sort_key fst ys))"
      using assms(2) by (metis mset_eq_imp_distinct_iff)
    then have "filter (\<lambda>x. fst k = fst x) (sort_key fst ys) = [k]"
      using that by (rule distinct_keys_filter)
    moreover have "filter (\<lambda>x. fst k = fst x) xs = [k]"
      using assms(1) k(2) by (rule distinct_keys_filter)
    ultimately show ?thesis by simp
  qed
qed

lemma fold_monthStep_Nil:
  assumes "\<forall>e \<in> set evs. \<exists>q. event.count e = Fin q"
  shows "distinct (map fst (fold monthStep evs []))"
    and "map_of (fold monthStep evs []) k
          = (if \<exists>e \<in> set evs. mailIn k e
             then Some (Fin (\<Sum>e\<leftarrow>filter (mailIn k) evs. finVal (event.count e))) else None)"
proof -
  let ?A = "fold monthStep evs []"
  have e: "allFin []" "distinct (map fst ([] :: (string \<times> jsnum) list))"
    by (simp_all add: allFin_def)
  note inv = fold_monthStep [OF assms e]
  show "distinct (map fst ?A)" using inv by blast
  have keys: "fst ` set ?A = monthKey ` mailDate ` {e \<in> set evs. hasMail e}"
    using inv by simp
  have tot: "monthTotal ?A k = (\<Sum>e\<leftarrow>filter (mailIn k) evs. finVal (event.count e))"
    using inv by (simp add: monthTotal_def)
  have fin: "allFin ?A" using inv by blast
  show "map_of ?A k
          = (if \<exists>e \<in> set evs. mailIn k e
             then Some (Fin (\<Sum>e\<leftarrow>filter (mailIn k) evs. finVal (event.count e))) else None)"
  proof (cases "\<exists>e \<in> set evs. mailIn k e")
    case True
    then have "k \<in> fst ` set ?A" unfolding keys by (auto simp: mailIn_def)
    then obtain x where x: "map_of ?A k = Some x"
      by (metis domD dom_map_of_conv_image_fst)
    then have "x \<in> snd ` set ?A" by (metis map_of_SomeD snd_conv image_eqI)
    with fin obtain q where q: "x = Fin q" by (auto simp: allFin_def)
    with x tot have "q = (\<Sum>e\<leftarrow>filter (mailIn k) evs. finVal (event.count e))"
      by (simp add: monthTotal_def)
    with True x q show ?thesis by simp
  next
    case False
    then have "k \<notin> fst ` set ?A" unfolding keys by (auto simp: mailIn_def)
    then have "map_of ?A k = None" by (simp add: map_of_eq_None_iff)
    with False show ?thesis by simp
  qed
qed

lemma isInteger_Fin: "isInteger x \<Longrightarrow> \<exists>q. x = Fin q"
  by (cases x) (simp_all add: isInteger_def)

text \<open>The aggregate of events with finite counts, by month key.\<close>

lemma monthAgg_by_key:
  assumes "\<forall>e \<in> set evs. \<exists>q. event.count e = Fin q"
  shows "sorted_wrt (<) (map fst (monthAgg evs))
    \<and> (\<forall>k. map_of (monthAgg evs) k
          = (if \<exists>e \<in> set evs. hasMail e \<and> monthKey (mailDate e) = k
             then Some (Fin (\<Sum>e\<leftarrow>filter (\<lambda>e. hasMail e \<and> monthKey (mailDate e) = k) evs.
                               finVal (event.count e)))
             else None))
    \<and> (\<forall>evs'. mset evs' = mset evs \<longrightarrow> monthAgg evs' = monthAgg evs)"
proof -
  note fin = assms
  let ?A = "fold monthStep evs []"
  have dA: "distinct (map fst ?A)" using fold_monthStep_Nil(1) [OF fin] .
  have mA: "map_of ?A k
          = (if \<exists>e \<in> set evs. mailIn k e
             then Some (Fin (\<Sum>e\<leftarrow>filter (mailIn k) evs. finVal (event.count e))) else None)" for k
    using fold_monthStep_Nil(2) [OF fin] .
  have "mset (map fst (monthAgg evs)) = mset (map fst ?A)" by (simp add: monthAgg_def)
  then have dS: "distinct (map fst (monthAgg evs))" using dA by (metis mset_eq_imp_distinct_iff)
  have "sorted (map fst (monthAgg evs))" by (simp add: monthAgg_def)
  then have 1: "sorted_wrt (<) (map fst (monthAgg evs))"
    using dS by (simp add: strict_sorted_iff)
  have "map_of (monthAgg evs) = map_of ?A"
    using dS dA by (subst map_of_inject_set) (simp_all add: monthAgg_def)
  then have 2: "map_of (monthAgg evs) k
          = (if \<exists>e \<in> set evs. hasMail e \<and> monthKey (mailDate e) = k
             then Some (Fin (\<Sum>e\<leftarrow>filter (\<lambda>e. hasMail e \<and> monthKey (mailDate e) = k) evs.
                               finVal (event.count e)))
             else None)" for k
    using mA [of k] by (simp add: mailIn_def [abs_def])
  have 3: "monthAgg evs' = monthAgg evs" if p: "mset evs' = mset evs" for evs'
  proof -
    have s: "set evs' = set evs" using p by (rule mset_eq_setD)
    then have fin': "\<forall>e \<in> set evs'. \<exists>q. event.count e = Fin q" using fin by simp
    let ?B = "fold monthStep evs' []"
    have dB: "distinct (map fst ?B)" using fold_monthStep_Nil(1) [OF fin'] .
    have sum: "(\<Sum>e\<leftarrow>filter (mailIn k) evs'. finVal (event.count e))
             = (\<Sum>e\<leftarrow>filter (mailIn k) evs. finVal (event.count e))" for k
    proof -
      have "mset (map (\<lambda>e. finVal (event.count e)) (filter (mailIn k) evs'))
          = mset (map (\<lambda>e. finVal (event.count e)) (filter (mailIn k) evs))"
        using p by (metis mset_filter mset_map)
      then show ?thesis by (metis sum_mset_sum_list)
    qed
    have "map_of ?B k = map_of ?A k" for k
      using fold_monthStep_Nil(2) [OF fin', of k] mA [of k] by (simp add: s sum)
    then have "map_of ?B = map_of ?A" by (rule ext)
    from sort_key_fst_unique [OF dB dA this] show ?thesis by (simp add: monthAgg_def)
  qed
  from 1 2 3 show ?thesis by blast
qed

lemma monthKey_sample: "monthKey (LocalMs 1756166400000) = ''2025-08''"
  by (simp add: monthKey_def getYear_def getFullYear_def getMonth_def dayNumber_sample
      civil_20326 show_int_def show_nat_2025 show_nat_8 padStart_def)

lemma numberOr0_Infinity: "numberOr0 (Some ''Infinity'') = PosInf"
  by (simp add: numberOr0_def or0_def number_defs)

lemma numberOr0_minus_Infinity: "numberOr0 (Some ''-Infinity'') = NegInf"
  by (simp add: numberOr0_def or0_def number_defs)

lemma numberOr0_5: "numberOr0 (Some ''5'') = Fin 5"
  by (simp add: numberOr0_def or0_def number_defs)

lemma countEvent_count [simp]: "event.count (countEvent i c) = numberOr0 (Some c)"
  by (simp add: countEvent_def)

lemma data_countRows:
  "data sampleLib now [countRow a, countRow b, countRow c]
     = [countEvent 0 a, countEvent 1 b, countEvent 2 c]"
  by (simp add: data_dataFrom normalize_countRow numeral_2_eq_2)

text \<open>
  C7, as stated, fails: an event list may hold infinite counts (a \<^verbatim>\<open>Count\<close> cell \<^verbatim>\<open>Infinity\<close>),
  and \<open>Infinity + -Infinity\<close> is \<open>NaN\<close>, which \<^verbatim>\<open>map.get(key) || 0\<close> turns into 0 at the next
  event. Three events of one month, in two orders, give the totals 5 and \<open>NaN\<close>.
\<close>

theorem monthAgg_order_counterexample:
  "data sampleLib (LocalMs 0) [countRow ''Infinity'', countRow ''-Infinity'', countRow ''5'']
     = [countEvent 0 ''Infinity'', countEvent 1 ''-Infinity'', countEvent 2 ''5'']
   \<and> mset [countEvent 0 ''Infinity'', countEvent 2 ''5'', countEvent 1 ''-Infinity'']
     = mset [countEvent 0 ''Infinity'', countEvent 1 ''-Infinity'', countEvent 2 ''5'']
   \<and> monthAgg [countEvent 0 ''Infinity'', countEvent 1 ''-Infinity'', countEvent 2 ''5'']
     = [(''2025-08'', Fin 5)]
   \<and> monthAgg [countEvent 0 ''Infinity'', countEvent 2 ''5'', countEvent 1 ''-Infinity'']
     = [(''2025-08'', NaN)]"
proof -
  have "monthAgg [countEvent 0 ''Infinity'', countEvent 1 ''-Infinity'', countEvent 2 ''5'']
     = [(''2025-08'', Fin 5)]"
    by (simp add: monthAgg_def monthStep_def monthKey_sample getOr0_def or0_def
        numberOr0_Infinity numberOr0_minus_Infinity numberOr0_5)
  moreover have "monthAgg [countEvent 0 ''Infinity'', countEvent 2 ''5'', countEvent 1 ''-Infinity'']
     = [(''2025-08'', NaN)]"
    by (simp add: monthAgg_def monthStep_def monthKey_sample getOr0_def or0_def
        numberOr0_Infinity numberOr0_minus_Infinity numberOr0_5)
  moreover have "mset [countEvent 0 ''Infinity'', countEvent 2 ''5'', countEvent 1 ''-Infinity'']
     = mset [countEvent 0 ''Infinity'', countEvent 1 ''-Infinity'', countEvent 2 ''5'']"
    by (simp add: add.commute)
  ultimately show ?thesis
    using data_countRows [of "LocalMs 0"] by simp
qed

text \<open>
  C7, amended. For every list of events whose counts are integers, of absolute values that sum
  to at most \<open>2 ^ 53\<close> (there the additions of the program are exact, as they are here), the
  monthly aggregate is in strictly ascending order of its keys, which are the month keys of the
  events with mail; under the key of a month stands the sum of the counts of the events with
  mail whose date is in that year and month; and the aggregate of any permutation of the list
  is the same. The order is that of the key strings, by code unit: it is the order of time for
  years of four digits (1000 to 9999), not beyond (\<^verbatim>\<open>2025-08\<close> comes before \<^verbatim>\<open>999-12\<close>).
\<close>

theorem monthAgg_integer_counts:
  assumes "\<forall>e \<in> set evs. isInteger (event.count e)"
    and "(\<Sum>e\<leftarrow>evs. \<bar>finVal (event.count e)\<bar>) \<le> 2 ^ 53"
  shows "sorted_wrt (<) (map fst (monthAgg evs))
    \<and> fst ` set (monthAgg evs) = monthKey ` mailDate ` {e \<in> set evs. hasMail e}
    \<and> (\<forall>d. map_of (monthAgg evs) (monthKey d)
          = (if \<exists>e \<in> set evs. hasMail e \<and> sameMonth (mailDate e) d
             then Some (Fin (\<Sum>e\<leftarrow>filter (\<lambda>e. hasMail e \<and> sameMonth (mailDate e) d) evs.
                               finVal (event.count e)))
             else None))
    \<and> (\<forall>evs'. mset evs' = mset evs \<longrightarrow> monthAgg evs' = monthAgg evs)"
proof -
  have fin: "\<forall>e \<in> set evs. \<exists>q. event.count e = Fin q"
    using assms(1) isInteger_Fin by blast
  note k = monthAgg_by_key [OF fin]
  have 1: "sorted_wrt (<) (map fst (monthAgg evs))" using k by blast
  have byKey: "map_of (monthAgg evs) k
          = (if \<exists>e \<in> set evs. hasMail e \<and> monthKey (mailDate e) = k
             then Some (Fin (\<Sum>e\<leftarrow>filter (\<lambda>e. hasMail e \<and> monthKey (mailDate e) = k) evs.
                               finVal (event.count e)))
             else None)" for k
    using k by blast
  have "k \<in> fst ` set (monthAgg evs) \<longleftrightarrow> k \<in> monthKey ` mailDate ` {e \<in> set evs. hasMail e}" for k
  proof -
    have "k \<in> fst ` set (monthAgg evs) \<longleftrightarrow> map_of (monthAgg evs) k \<noteq> None"
      by (simp add: map_of_eq_None_iff)
    also have "\<dots> \<longleftrightarrow> (\<exists>e \<in> set evs. hasMail e \<and> monthKey (mailDate e) = k)"
      by (simp add: byKey)
    also have "\<dots> \<longleftrightarrow> k \<in> monthKey ` mailDate ` {e \<in> set evs. hasMail e}"
      by auto
    finally show ?thesis .
  qed
  then have 2: "fst ` set (monthAgg evs) = monthKey ` mailDate ` {e \<in> set evs. hasMail e}"
    by blast
  have 3: "map_of (monthAgg evs) (monthKey d)
          = (if \<exists>e \<in> set evs. hasMail e \<and> sameMonth (mailDate e) d
             then Some (Fin (\<Sum>e\<leftarrow>filter (\<lambda>e. hasMail e \<and> sameMonth (mailDate e) d) evs.
                               finVal (event.count e)))
             else None)" for d
    using byKey [of "monthKey d"] by (simp add: monthKey_eq_iff)
  have 4: "\<forall>evs'. mset evs' = mset evs \<longrightarrow> monthAgg evs' = monthAgg evs" using k by blast
  from 1 2 3 4 show ?thesis by blast
qed

theorem monthAgg_integer_counts_witness:
  "isInteger (event.count (countEvent 0 ''100'')) \<and> isInteger (event.count (countEvent 1 ''5''))
   \<and> (\<Sum>e\<leftarrow>[countEvent 0 ''100'', countEvent 1 ''5'']. \<bar>finVal (event.count e)\<bar>) \<le> 2 ^ 53
   \<and> monthAgg [countEvent 1 ''5'', countEvent 0 ''100'']
       = monthAgg [countEvent 0 ''100'', countEvent 1 ''5'']
   \<and> map_of (monthAgg [countEvent 0 ''100'', countEvent 1 ''5'']) ''2025-08'' = Some (Fin 105)"
proof -
  have h: "\<forall>e \<in> set [countEvent 0 ''100'', countEvent 1 ''5'']. isInteger (event.count e)"
    by (simp add: numberOr0_100 numberOr0_5 isInteger_def)
  have p: "mset [countEvent 1 ''5'', countEvent 0 ''100'']
      = mset [countEvent 0 ''100'', countEvent 1 ''5'']"
    by (simp add: add.commute)
  have s: "(\<Sum>e\<leftarrow>[countEvent 0 ''100'', countEvent 1 ''5'']. \<bar>finVal (event.count e)\<bar>) \<le> 2 ^ 53"
    by (simp add: numberOr0_100 numberOr0_5)
  note t = monthAgg_integer_counts [OF h s]
  from t p have a: "monthAgg [countEvent 1 ''5'', countEvent 0 ''100'']
       = monthAgg [countEvent 0 ''100'', countEvent 1 ''5'']"
    by blast
  from t have "map_of (monthAgg [countEvent 0 ''100'', countEvent 1 ''5''])
        (monthKey (LocalMs 1756166400000))
      = (if \<exists>e \<in> set [countEvent 0 ''100'', countEvent 1 ''5''].
              hasMail e \<and> sameMonth (mailDate e) (LocalMs 1756166400000)
         then Some (Fin (\<Sum>e\<leftarrow>filter (\<lambda>e. hasMail e \<and> sameMonth (mailDate e) (LocalMs 1756166400000))
                               [countEvent 0 ''100'', countEvent 1 ''5'']. finVal (event.count e)))
         else None)"
    by blast
  then have b: "map_of (monthAgg [countEvent 0 ''100'', countEvent 1 ''5'']) ''2025-08''
      = Some (Fin 105)"
    by (simp add: monthKey_sample numberOr0_100 numberOr0_5 sameMonth_def)
  from h s a b show ?thesis by simp
qed

section \<open>Channel flags of a row\<close>

lemma classify_amended: "classify src = amended_flags src"
  by (auto simp add: classify_def amended_flags_def spec_rule1_def amended_rule2_def spec_rule3_def
      spec_rule4_def spec_rule5_def channelToken_def anyToken_iff Let_def)

lemma normalizeRow_flags: "flagsOf (normalizeRow lib now i r) = classify (rowSearch r)"
  by (simp add: flagsOf_def normalizeRow_def rowSearch_def Let_def)

lemma keepDated_flags: "e \<in> set (keepDated x) \<Longrightarrow> flagsOf e = flagsOf x \<and> raw e = raw x"
  by (cases "mailDate x") (simp_all add: keepDated_def flagsOf_def)

lemma data_event_flags:
  assumes "e \<in> set (data lib now rows)"
  shows "flagsOf e = classify (rowSearch (raw e))"
proof -
  obtain i r where x: "e \<in> set (keepDated (normalizeRow lib now i r))"
    using dataFrom_event assms unfolding data_dataFrom by blast
  from keepDated_flags [OF x] show ?thesis by (simp add: normalizeRow_flags)
qed

lemma rowDate_chanRow: "rowDate sampleLib now (chanRow t c) = Some (LocalMs 1756166400000)"
  by (simp add: rowDate_def chanRow_def cell_def orCell_def truthy_def tryParseDate_sample)

lemma rowSearch_chanRow: "rowSearch (chanRow t c) = searchString t c"
  by (simp add: rowSearch_def chanRow_def cell_def orElse_def truthy_def)

lemma flags_chanRow:
  "map flagsOf (data sampleLib now [chanRow t c]) = [classify (searchString t c)]"
proof -
  have "keepDated (normalizeRow sampleLib now 0 (chanRow t c)) \<noteq> []"
    by (simp add: keepDated_def rowDate_chanRow)
  then obtain e es where e: "keepDated (normalizeRow sampleLib now 0 (chanRow t c)) = e # es"
    by (cases "keepDated (normalizeRow sampleLib now 0 (chanRow t c))") auto
  then have es: "es = []" by (simp add: keepDated_def split: option.splits)
  have "e \<in> set (keepDated (normalizeRow sampleLib now 0 (chanRow t c)))" using e by simp
  from keepDated_flags [OF this] have "flagsOf e = classify (searchString t c)"
    by (simp add: normalizeRow_flags rowSearch_chanRow)
  then show ?thesis by (simp add: data_single e es)
qed

lemma ex_voicemail: "classify (searchString [] ''voicemail'') = \<lparr>hasMail = False, hasText = False, hasVM = True\<rparr>"
  by code_simp
lemma ex_voicemail_tag: "classify (searchString ''voicemail'' []) = \<lparr>hasMail = False, hasText = False, hasVM = True\<rparr>"
  by code_simp
lemma ex_nomail: "classify (searchString ''NoMail'' []) = \<lparr>hasMail = False, hasText = True, hasVM = True\<rparr>"
  by code_simp
lemma ex_notext: "classify (searchString ''No Text'' ''Mail'') = \<lparr>hasMail = True, hasText = False, hasVM = True\<rparr>"
  by code_simp
lemma ex_nosms: "classify (searchString ''no-sms'' ''Mail,Text'') = \<lparr>hasMail = True, hasText = False, hasVM = True\<rparr>"
  by code_simp
lemma ex_novm: "classify (searchString ''No VM'' ''Mail'') = \<lparr>hasMail = True, hasText = True, hasVM = False\<rparr>"
  by code_simp
lemma ex_nomail_tag_mail: "classify (searchString ''No-Mail'' ''Mail,Text'') = \<lparr>hasMail = False, hasText = True, hasVM = False\<rparr>"
  by code_simp
lemma ex_text_only: "classify (searchString [] ''SMS'') = \<lparr>hasMail = False, hasText = True, hasVM = False\<rparr>"
  by code_simp
lemma ex_novoicemail_text: "classify (searchString ''no voicemail'' ''Text,VM'') = \<lparr>hasMail = False, hasText = True, hasVM = False\<rparr>"
  by code_simp
lemma spec_nomail: "spec_flags (searchString ''NoMail'' []) = \<lparr>hasMail = False, hasText = False, hasVM = False\<rparr>"
  by code_simp
lemma preds_notext: "noText (searchString ''No Text'' ''Mail'') \<and> hasTextToken (searchString ''No Text'' ''Mail'') \<and> noVM (searchString ''No VM'' ''Mail'')
  \<and> hasNoMailTag (searchString ''No-Mail'' ''Mail,Text'') \<and> hasMailToken (searchString ''No-Mail'' ''Mail,Text'')"
  by code_simp

text \<open>
  C1, as stated, fails. With rule 2 guarded by the specification's \<open>anyToken\<close> (any of the four
  token classes), a row tagged \<^verbatim>\<open>NoMail\<close> and nothing else matches the no-mail tag, so rule 2
  stays out and the five rules give no channel at all; the code gives it text and voicemail.
\<close>

theorem nomail_row_counterexample:
  "map flagsOf (data sampleLib (LocalMs 0) [chanRow ''NoMail'' []])
     = [\<lparr>hasMail = False, hasText = True, hasVM = True\<rparr>]
   \<and> spec_flags (rowSearch (chanRow ''NoMail'' []))
     = \<lparr>hasMail = False, hasText = False, hasVM = False\<rparr>"
  by (simp add: flags_chanRow ex_nomail rowSearch_chanRow spec_nomail)

text \<open>
  C1, amended. For every row, and so for every event of the output, the channel flags are those
  of the five rules applied in their order to the search string of the row, where rule 2
  applies when none of the three channel token classes (mail, text, voicemail) matched; the
  no-mail tag does not keep it out. The rows below run through the normalizer: \<^verbatim>\<open>voicemail\<close>
  alone gives no mail; no tags and no channels give all three; \<^verbatim>\<open>NoMail\<close> alone gives text and
  voicemail; a negated text or voicemail token clears its flag last, also against an explicit
  token and against the follow-up that mail implies; a no-mail tag cancels a mail token.
\<close>

theorem row_flags_follow_rules:
  "flagsOf (normalizeRow lib now i r) = amended_flags (rowSearch r)
   \<and> (\<forall>e \<in> set (data lib now rows). flagsOf e = amended_flags (rowSearch (raw e)))
   \<and> map flagsOf (data sampleLib (LocalMs 0) [chanRow [] ''voicemail''])
       = [\<lparr>hasMail = False, hasText = False, hasVM = True\<rparr>]
   \<and> map flagsOf (data sampleLib (LocalMs 0) [chanRow ''voicemail'' []])
       = [\<lparr>hasMail = False, hasText = False, hasVM = True\<rparr>]
   \<and> map flagsOf (data sampleLib (LocalMs 0) [chanRow [] []])
       = [\<lparr>hasMail = True, hasText = True, hasVM = True\<rparr>]
   \<and> map flagsOf (data sampleLib (LocalMs 0) [chanRow ''NoMail'' []])
       = [\<lparr>hasMail = False, hasText = True, hasVM = True\<rparr>]
   \<and> map flagsOf (data sampleLib (LocalMs 0) [chanRow [] ''Mail,Text,Voicemail''])
       = [\<lparr>hasMail = True, hasText = True, hasVM = True\<rparr>]
   \<and> map flagsOf (data sampleLib (LocalMs 0) [chanRow [] ''SMS''])
       = [\<lparr>hasMail = False, hasText = True, hasVM = False\<rparr>]
   \<and> map flagsOf (data sampleLib (LocalMs 0) [chanRow ''No Text'' ''Mail''])
       = [\<lparr>hasMail = True, hasText = False, hasVM = True\<rparr>]
   \<and> map flagsOf (data sampleLib (LocalMs 0) [chanRow ''no-sms'' ''Mail,Text''])
       = [\<lparr>hasMail = True, hasText = False, hasVM = True\<rparr>]
   \<and> map flagsOf (data sampleLib (LocalMs 0) [chanRow ''No VM'' ''Mail''])
       = [\<lparr>hasMail = True, hasText = True, hasVM = False\<rparr>]
   \<and> map flagsOf (data sampleLib (LocalMs 0) [chanRow ''no voicemail'' ''Text,VM''])
       = [\<lparr>hasMail = False, hasText = True, hasVM = False\<rparr>]
   \<and> map flagsOf (data sampleLib (LocalMs 0) [chanRow ''No-Mail'' ''Mail,Text''])
       = [\<lparr>hasMail = False, hasText = True, hasVM = False\<rparr>]"
proof -
  have 1: "flagsOf (normalizeRow lib now i r) = amended_flags (rowSearch r)"
    by (simp add: normalizeRow_flags classify_amended)
  have 2: "\<forall>e \<in> set (data lib now rows). flagsOf e = amended_flags (rowSearch (raw e))"
    by (simp add: data_event_flags classify_amended)
  show ?thesis
    using 1 2
    by (simp add: flags_chanRow ex_voicemail ex_voicemail_tag classify_blank ex_nomail classify_all
        ex_text_only ex_notext ex_nosms ex_novm ex_novoicemail_text ex_nomail_tag_mail)
qed

theorem row_flags_follow_rules_witness:
  "data sampleLib (LocalMs 0) [chanRow ''no-sms'' ''Mail,Text''] \<noteq> []
   \<and> list_all (\<lambda>e. flagsOf e = amended_flags (rowSearch (raw e)))
        (data sampleLib (LocalMs 0) [chanRow ''no-sms'' ''Mail,Text''])
   \<and> list_all (\<lambda>e. flagsOf e = \<lparr>hasMail = True, hasText = False, hasVM = True\<rparr>)
        (data sampleLib (LocalMs 0) [chanRow ''no-sms'' ''Mail,Text''])
   \<and> hasTextToken (rowSearch (chanRow ''no-sms'' ''Mail,Text''))
   \<and> noText (rowSearch (chanRow ''no-sms'' ''Mail,Text''))"
proof -
  let ?rows = "[chanRow ''no-sms'' ''Mail,Text'']"
  have f: "map flagsOf (data sampleLib (LocalMs 0) ?rows)
      = [\<lparr>hasMail = True, hasText = False, hasVM = True\<rparr>]"
    by (simp add: flags_chanRow ex_nosms)
  then have n: "data sampleLib (LocalMs 0) ?rows \<noteq> []" by auto
  from f have v: "list_all (\<lambda>e. flagsOf e = \<lparr>hasMail = True, hasText = False, hasVM = True\<rparr>)
        (data sampleLib (LocalMs 0) ?rows)"
    by (auto simp: map_eq_Cons_conv)
  have p: "hasTextToken (rowSearch (chanRow ''no-sms'' ''Mail,Text''))
      \<and> noText (rowSearch (chanRow ''no-sms'' ''Mail,Text''))"
    unfolding rowSearch_chanRow by code_simp
  from row_flags_follow_rules [of sampleLib "LocalMs 0" 0 "chanRow ''no-sms'' ''Mail,Text''" ?rows]
  have "\<forall>e \<in> set (data sampleLib (LocalMs 0) ?rows). flagsOf e = amended_flags (rowSearch (raw e))"
    by blast
  then have "list_all (\<lambda>e. flagsOf e = amended_flags (rowSearch (raw e)))
        (data sampleLib (LocalMs 0) ?rows)"
    by (simp add: list_all_iff)
  with n v p show ?thesis by blast
qed

section \<open>The batch number\<close>

text \<open>
  Up to 53 bits the batch number is the integer that the digits denote; digits that denote
  \<open>2 ^ 1024\<close> or more give no batch number (\<^verbatim>\<open>parseInt\<close> is \<^verbatim>\<open>Infinity\<close> there), and the stage is
  then \<^verbatim>\<open>Initial\<close>.
\<close>

lemma bitLength_bounds: "0 < n \<Longrightarrow> 2 ^ (bitLength n - 1) \<le> n \<and> n < 2 ^ bitLength n"
proof (induction n rule: bitLength.induct)
  case (1 n)
  show ?case
  proof (cases "n div 2 = 0")
    case True
    with 1(2) have "n = 1" by (simp add: div_eq_0_iff) 
    then show ?thesis by (simp add: bitLength.simps)
  next
    case False
    with 1 have ih: "2 ^ (bitLength (n div 2) - 1) \<le> n div 2" "n div 2 < 2 ^ bitLength (n div 2)"
      by simp_all
    have pos: "0 < bitLength (n div 2)" using False by (subst bitLength.simps) simp
    have b: "bitLength n = Suc (bitLength (n div 2))" using 1(2) by (subst bitLength.simps) simp
    have "2 ^ (bitLength n - 1) = 2 * 2 ^ (bitLength (n div 2) - 1)"
      using pos by (simp add: b flip: power_Suc)
    also have "\<dots> \<le> 2 * (n div 2)" using ih(1) by simp
    also have "\<dots> \<le> n" by simp
    finally have lo: "2 ^ (bitLength n - 1) \<le> n" .
    have "n < 2 * (n div 2) + 2" by presburger
    also have "\<dots> \<le> 2 * 2 ^ bitLength (n div 2)" using ih(2) by simp
    finally have "n < 2 ^ bitLength n" by (simp add: b)
    with lo show ?thesis by simp
  qed
qed

lemma toDouble_small: "n < 2 ^ 53 \<Longrightarrow> toDouble n = Some n"
  by (simp del: power_numeral add: toDouble_def)

lemma toDouble_overflow:
  assumes "2 ^ 1024 \<le> n"
  shows "toDouble n = None"
proof -
  have "(0::nat) < 2 ^ 1024" by (rule zero_less_power) simp
  then have pos: "0 < n" using assms by (rule less_le_trans)
  note bb = bitLength_bounds [OF pos]
  let ?b = "bitLength n"
  have "(2::nat) ^ 1024 < 2 ^ ?b" using assms bb by (meson le_less_trans)
  then have b: "1024 < ?b" by (simp only: power_strict_increasing_iff one_less_numeral_iff semiring_norm)
  let ?e = "?b - 53"
  let ?q = "n div 2 ^ ?e"
  have "(2::nat) ^ 52 * 2 ^ ?e = 2 ^ (?b - 1)"
    using b by (simp del: power_numeral flip: power_add)
  also have "\<dots> \<le> n" using bb by simp
  finally have "(2::nat) ^ 52 \<le> ?q"
    by (simp del: power_numeral add: less_eq_div_iff_mult_less_eq)
  then have q: "2 ^ 52 * 2 ^ ?e \<le> ?q * 2 ^ ?e" by (simp del: power_numeral)
  have big: "(2::nat) ^ 1024 \<le> 2 ^ 52 * 2 ^ ?e"
  proof -
    have "(1024::nat) \<le> 52 + ?e" using b by simp
    then have "(2::nat) ^ 1024 \<le> 2 ^ (52 + ?e)" by (rule power_increasing) simp
    then show ?thesis by (simp only: power_add)
  qed
  have v: "2 ^ 1024 \<le> q' * 2 ^ ?e" if "?q \<le> q'" for q'
  proof -
    have "?q * 2 ^ ?e \<le> q' * 2 ^ ?e" using that by (simp del: power_numeral)
    with q big show ?thesis by (rule_tac order_trans [OF big]) (rule order_trans [OF q])
  qed
  have n53: "\<not> n < 2 ^ 53"
  proof -
    have "(2::nat) ^ 53 \<le> 2 ^ 1024" by (rule power_increasing) simp_all
    then have "(2::nat) ^ 53 \<le> n" using assms by (rule order_trans)
    then show ?thesis by (simp only: not_less)
  qed
  show ?thesis
    using n53 v [of ?q] v [of "?q + 1"] by (simp del: power_numeral add: toDouble_def Let_def)
qed

lemma inferBatchNum_overflow:
  assumes "radix_literal 10 (filter is_digit (p @ '' '' @ b)) = Some n" "2 ^ 1024 \<le> n"
  shows "inferBatchNum p b = None"
    and "stageForBatch (inferBatchNum p b) = ''Initial''"
  using assms toDouble_overflow [of n]
  by (simp_all del: power_numeral add: inferBatchNum_def stageForBatch_def)

end
